theory Spec2Isabelle
  imports Complex_Main "HOL-Library.Word"
begin

section \<open>Conventions of the embedding\<close>

text \<open>
  The development embeds \<^verbatim>\<open>sz_compress_float3d_opencl\<close> of
  \<^verbatim>\<open>src/sz/src/sz_opencl.cc\<close>.

  \<^item> \<^verbatim>\<open>size_t\<close> is a 64-bit word where wrap-around matters (the prologue of the
    call), and a natural number elsewhere (indices, pointer offsets, byte counts).
  \<^item> \<^verbatim>\<open>float\<close> and \<^verbatim>\<open>double\<close> are modelled as \<open>real\<close>: arithmetic is
    exact, rounding, NaN and the infinities are not modelled.
  \<^item> A pointer into an array is the index it points to. A read of \<^verbatim>\<open>oriData\<close>
    outside the array is the value \<open>None\<close>.
  \<^item> \<^verbatim>\<open>sizeof(int) = sizeof(float) = 4\<close>, \<^verbatim>\<open>sizeof(double) = sizeof(size_t) = 8\<close>,
    \<^verbatim>\<open>sizeof(unsigned short) = 2\<close>.
\<close>

type_synonym size_t = "64 word"

definition block_size :: nat where
  "block_size = 6"

definition pred_buffer_block_size :: nat where
  "pred_buffer_block_size = block_size + 1"

definition strip_dim0_offset :: nat where
  "strip_dim0_offset = pred_buffer_block_size * pred_buffer_block_size"

definition strip_dim1_offset :: nat where
  "strip_dim1_offset = pred_buffer_block_size"

text \<open>The C cast \<^verbatim>\<open>(int)x\<close> of a double: truncation towards zero.\<close>

definition c_trunc :: "real \<Rightarrow> int" where
  "c_trunc x = (if 0 \<le> x then \<lfloor>x\<rfloor> else \<lceil>x\<rceil>)"

section \<open>The prologue of the call\<close>

text \<open>
  Lines 176--212: the block counts, computed on \<^verbatim>\<open>size_t\<close>, and the byte counts of
  the four \<^verbatim>\<open>malloc\<close> calls the function starts with (\<^verbatim>\<open>result_type\<close>,
  \<^verbatim>\<open>result_unpredictable_data\<close>, \<^verbatim>\<open>reg_params\<close>, \<^verbatim>\<open>pred_buffer\<close>), in the
  order of the calls. No statement between the entry and these calls tests
  \<^verbatim>\<open>r1\<close>, \<^verbatim>\<open>r2\<close>, \<^verbatim>\<open>r3\<close> or \<^verbatim>\<open>realPrecision\<close>, and none returns.
\<close>

definition num_blocks_axis :: "size_t \<Rightarrow> size_t" where
  "num_blocks_axis r = (r - 1) div 6 + 1"

definition entry_mallocs :: "size_t \<Rightarrow> size_t \<Rightarrow> size_t \<Rightarrow> real \<Rightarrow> size_t list" where
  "entry_mallocs r1 r2 r3 realPrecision =
     (let num_x = num_blocks_axis r1;
          num_y = num_blocks_axis r2;
          num_z = num_blocks_axis r3;
          max_num_block_elements = 6 * 6 * 6;
          num_blocks = num_x * num_y * num_z;
          unpred_data_max_size = max_num_block_elements
      in [num_blocks * max_num_block_elements * 4,
          unpred_data_max_size * 4 * num_blocks,
          num_blocks * 4 * 4,
          (6 + 1) * (6 + 1) * (6 + 1) * 4])"

section \<open>The predictor selector\<close>

text \<open>
  The Lorenzo-style prediction at the cell \<open>p\<close> of the halo-augmented staging
  buffer (\<^verbatim>\<open>pred_sz\<close>, \<^verbatim>\<open>pred3D\<close>): the inclusion-exclusion sum of the seven
  neighbours before it.
\<close>

definition pred_sz_at :: "real list \<Rightarrow> nat \<Rightarrow> real" where
  "pred_sz_at buf p =
     buf ! (p - 1) + buf ! (p - strip_dim1_offset) + buf ! (p - strip_dim0_offset)
     - buf ! (p - strip_dim1_offset - 1) - buf ! (p - strip_dim0_offset - 1)
     - buf ! (p - strip_dim0_offset - strip_dim1_offset)
     + buf ! (p - strip_dim0_offset - strip_dim1_offset - 1)"

text \<open>
  The regression prediction \<^verbatim>\<open>reg_params_pos[0] * x + reg_params_pos[params_offset_b] * y
  + reg_params_pos[params_offset_c] * z + reg_params_pos[params_offset_d]\<close>, where
  \<^verbatim>\<open>reg_params_pos = reg_params + idx\<close> and the offsets are \<open>nb\<close>, \<open>2 * nb\<close> and
  \<open>3 * nb\<close> for \<open>nb = num_blocks\<close>.
\<close>

definition pred_reg_at :: "real list \<Rightarrow> nat \<Rightarrow> nat \<Rightarrow> real \<Rightarrow> real \<Rightarrow> real \<Rightarrow> real" where
  "pred_reg_at reg_params nb idx x y z =
     reg_params ! idx * x + reg_params ! (idx + nb) * y
     + reg_params ! (idx + 2 * nb) * z + reg_params ! (idx + 3 * nb)"

text \<open>
  One sample of the selector (lines 374--392 and its three repetitions; lines
  504--521 without mean mode): the cell \<open>p\<close> of the staging buffer and the local
  coordinates the regression prediction is evaluated at. The two loops of the source
  differ in the Lorenzo error only, which \<open>use_mean\<close> selects here.
\<close>

definition sample_errs ::
  "bool \<Rightarrow> real \<Rightarrow> real \<Rightarrow> real list \<Rightarrow> real list \<Rightarrow> nat \<Rightarrow> nat \<Rightarrow>
   nat \<times> nat \<times> nat \<times> nat \<Rightarrow> real \<times> real \<Rightarrow> real \<times> real" where
  "sample_errs use_mean noise mean buf reg_params nb idx pt errs =
     (case pt of (p, x, y, z) \<Rightarrow>
      (case errs of (err_sz, err_reg) \<Rightarrow>
        (let curData = buf ! p;
             pred_sz = pred_sz_at buf p;
             pred_reg = pred_reg_at reg_params nb idx (real x) (real y) (real z)
         in (err_sz + (if use_mean
                       then min (\<bar>pred_sz - curData\<bar> + noise) \<bar>mean - curData\<bar>
                       else \<bar>pred_sz - curData\<bar> + noise),
             err_reg + \<bar>pred_reg - curData\<bar>))))"

text \<open>
  The four samples of the iteration \<open>i\<close> of the sampling loop
  \<^verbatim>\<open>for (size_t i = 2; i <= block_size; i++)\<close>, with \<^verbatim>\<open>bmi = block_size - i + 1\<close>:
  the cell offset in the staging buffer and the three factors of the regression
  prediction.
\<close>

definition sample_points :: "nat \<Rightarrow> (nat \<times> nat \<times> nat \<times> nat) list" where
  "sample_points i =
     (let bmi = block_size - i + 1;
          P = pred_buffer_block_size
      in [(i * P * P + i * P + i, i - 1, i - 1, i - 1),
          (i * P * P + i * P + bmi, i - 1, i - 1, bmi),
          (i * P * P + bmi * P + i, i - 1, bmi, i - 1),
          (i * P * P + bmi * P + bmi, i - 1, bmi, bmi)])"

definition sampling ::
  "bool \<Rightarrow> real \<Rightarrow> real \<Rightarrow> real list \<Rightarrow> real list \<Rightarrow> nat \<Rightarrow> nat \<Rightarrow> real \<times> real" where
  "sampling use_mean noise mean buf reg_params nb idx =
     fold (\<lambda>i errs. fold (sample_errs use_mean noise mean buf reg_params nb idx)
                          (sample_points i) errs)
          [2..<block_size + 1] (0, 0)"

text \<open>\<^verbatim>\<open>indicator_pos[k] = !(err_reg < err_sz)\<close>: true selects the Lorenzo predictor.\<close>

definition select_indicator ::
  "bool \<Rightarrow> real \<Rightarrow> real \<Rightarrow> real list \<Rightarrow> real list \<Rightarrow> nat \<Rightarrow> nat \<Rightarrow> bool" where
  "select_indicator use_mean noise mean buf reg_params nb idx =
     (case sampling use_mean noise mean buf reg_params nb idx of
        (err_sz, err_reg) \<Rightarrow> \<not> (err_reg < err_sz))"


text \<open>
  The offset of the cell \<open>(i, j, k)\<close> of the staging buffer, and the eight corners of
  the cube \<open>{2, block_size}\<^sup>3\<close> the specification names.
\<close>

definition cell :: "nat \<Rightarrow> nat \<Rightarrow> nat \<Rightarrow> nat" where
  "cell i j k = i * strip_dim0_offset + j * strip_dim1_offset + k"


section \<open>Staging a block into the prediction buffer\<close>

text \<open>
  \<^verbatim>\<open>oriData\<close> is the list of the \<open>r1 * r2 * r3\<close> samples; a pointer into it is an
  index, and dereferencing a pointer outside the array has no value.
\<close>

definition read_ori :: "real list \<Rightarrow> nat \<Rightarrow> real option" where
  "read_ori oriData p = (if p < length oriData then Some (oriData ! p) else None)"

fun fold_opt :: "('a \<Rightarrow> 's \<Rightarrow> 's option) \<Rightarrow> 'a list \<Rightarrow> 's \<Rightarrow> 's option" where
  "fold_opt f [] s = Some s"
| "fold_opt f (x # xs) s = (case f x s of None \<Rightarrow> None | Some s' \<Rightarrow> fold_opt f xs s')"

text \<open>
  The copy loops occur five times in the source: before the regression fit (lines
  225--240, into the buffer used as a dense \<open>6\<^sup>3\<close> array), in the selector with and
  without mean mode (lines 344--363 and 474--493) and in the quantizer with and without
  mean mode (lines 681--700 and 831--850), the last four into the cells \<open>1..6\<close> of the
  \<open>7\<^sup>3\<close> buffer. They differ in two places, which are parameters here:
  \<^item> \<open>halo\<close>: whether the destination pointer skips the halo cell after each row and
    the halo row after each plane;
  \<^item> \<open>off\<close>: the source pointer advances if \<^verbatim>\<open>k * block_size + kk + 1 < r3\<close>
    (\<open>off = 1\<close>: the fit and the two mean-mode copies) or if
    \<^verbatim>\<open>k * block_size + kk < r3\<close> (\<open>off = 0\<close>: the two copies without mean mode),
    and likewise along the other two axes.
  The state of the innermost loop is \<^verbatim>\<open>(pred_buffer, pred_buffer_pos, block_data_pos_z)\<close>.
\<close>

definition copy_cell ::
  "nat \<Rightarrow> real list \<Rightarrow> nat \<Rightarrow> nat \<Rightarrow> nat \<Rightarrow> real list \<times> nat \<times> nat
   \<Rightarrow> (real list \<times> nat \<times> nat) option" where
  "copy_cell off oriData r3 k kk st =
     (case st of (pred_buffer, pred_buffer_pos, block_data_pos_z) \<Rightarrow>
       (case read_ori oriData block_data_pos_z of
          None \<Rightarrow> None
        | Some v \<Rightarrow>
            Some (pred_buffer[pred_buffer_pos := v], pred_buffer_pos + 1,
                  if k * block_size + kk + off < r3 then block_data_pos_z + 1
                  else block_data_pos_z)))"

definition copy_row ::
  "nat \<Rightarrow> bool \<Rightarrow> real list \<Rightarrow> nat \<Rightarrow> nat \<Rightarrow> nat \<Rightarrow> nat \<Rightarrow> nat
   \<Rightarrow> real list \<times> nat \<times> nat \<Rightarrow> (real list \<times> nat \<times> nat) option" where
  "copy_row off halo oriData r2 r3 j k jj st =
     (case st of (pred_buffer, pred_buffer_pos, block_data_pos_y) \<Rightarrow>
       (case fold_opt (copy_cell off oriData r3 k) [0..<block_size]
               (pred_buffer, pred_buffer_pos, block_data_pos_y) of
          None \<Rightarrow> None
        | Some (pred_buffer', pred_buffer_pos', z) \<Rightarrow>
            Some (pred_buffer',
                  if halo then pred_buffer_pos' + 1 else pred_buffer_pos',
                  if j * block_size + jj + off < r2 then block_data_pos_y + r3
                  else block_data_pos_y)))"

definition copy_plane ::
  "nat \<Rightarrow> bool \<Rightarrow> real list \<Rightarrow> nat \<Rightarrow> nat \<Rightarrow> nat \<Rightarrow> nat \<Rightarrow> nat \<Rightarrow> nat \<Rightarrow> nat
   \<Rightarrow> real list \<times> nat \<times> nat \<Rightarrow> (real list \<times> nat \<times> nat) option" where
  "copy_plane off halo oriData r1 r2 r3 i j k ii st =
     (case st of (pred_buffer, pred_buffer_pos, block_data_pos_x) \<Rightarrow>
       (case fold_opt (copy_row off halo oriData r2 r3 j k) [0..<block_size]
               (pred_buffer, pred_buffer_pos, block_data_pos_x) of
          None \<Rightarrow> None
        | Some (pred_buffer', pred_buffer_pos', y) \<Rightarrow>
            Some (pred_buffer',
                  if halo then pred_buffer_pos' + pred_buffer_block_size else pred_buffer_pos',
                  if i * block_size + ii + off < r1 then block_data_pos_x + r2 * r3
                  else block_data_pos_x)))"

definition stage_block ::
  "nat \<Rightarrow> bool \<Rightarrow> real list \<Rightarrow> nat \<Rightarrow> nat \<Rightarrow> nat \<Rightarrow> nat \<Rightarrow> nat \<Rightarrow> nat
   \<Rightarrow> real list \<Rightarrow> real list option" where
  "stage_block off halo oriData r1 r2 r3 i j k pred_buffer =
     (let dim0_offset = r2 * r3;
          dim1_offset = r3;
          data_pos = i * block_size * dim0_offset + j * block_size * dim1_offset
                     + k * block_size;
          pred_buffer_pos =
            (if halo
             then pred_buffer_block_size * pred_buffer_block_size + pred_buffer_block_size + 1
             else 0)
      in map_option fst
           (fold_opt (copy_plane off halo oriData r1 r2 r3 i j k) [0..<block_size]
              (pred_buffer, pred_buffer_pos, data_pos)))"

text \<open>
  What the specification asks of a staged cell: the sample at the coordinates of the
  cell, each clamped to the last valid index of its axis.
\<close>

definition clamped_sample :: "real list \<Rightarrow> nat \<Rightarrow> nat \<Rightarrow> nat \<Rightarrow> nat \<Rightarrow> nat \<Rightarrow> nat \<Rightarrow> real" where
  "clamped_sample oriData r1 r2 r3 x y z =
     oriData ! (min x (r1 - 1) * (r2 * r3) + min y (r2 - 1) * r3 + min z (r3 - 1))"

section \<open>The blocks, in the order of the loops\<close>

definition num_blocks_of :: "nat \<Rightarrow> nat" where
  "num_blocks_of r = (r - 1) div block_size + 1"

definition block_list :: "nat \<Rightarrow> nat \<Rightarrow> nat \<Rightarrow> (nat \<times> nat \<times> nat) list" where
  "block_list r1 r2 r3 =
     [(i, j, k). i \<leftarrow> [0..<num_blocks_of r1], j \<leftarrow> [0..<num_blocks_of r2],
                 k \<leftarrow> [0..<num_blocks_of r3]]"

section \<open>The regression fit\<close>

text \<open>
  Lines 243--265: the moment sums over the dense \<open>6\<^sup>3\<close> buffer. The state of the
  loops is the read pointer and the accumulators.
\<close>

definition fit_sums :: "real list \<Rightarrow> real \<times> real \<times> real \<times> real" where
  "fit_sums pred_buffer =
     (case fold (\<lambda>i (p, fx, fy, fz, f).
                  (case fold (\<lambda>j (p, sum_x, fy, fz).
                                (case fold (\<lambda>k (p, sum_y, fz).
                                              (let curData = pred_buffer ! p
                                               in (p + 1, sum_y + curData, fz + curData * real k)))
                                           [0..<block_size] (p, 0, fz) of
                                   (p, sum_y, fz) \<Rightarrow> (p, sum_x + sum_y, fy + sum_y * real j, fz)))
                             [0..<block_size] (p, 0, fy, fz) of
                     (p, sum_x, fy, fz) \<Rightarrow> (p, fx + sum_x * real i, fy, fz, f + sum_x)))
                [0..<block_size] (0, 0, 0, 0, 0) of
        (p, fx, fy, fz, f) \<Rightarrow> (fx, fy, fz, f))"

text \<open>Lines 266--277: the four coefficients, in closed form.\<close>

definition fit_coeffs :: "real list \<Rightarrow> real \<times> real \<times> real \<times> real" where
  "fit_coeffs pred_buffer =
     (case fit_sums pred_buffer of (fx, fy, fz, f) \<Rightarrow>
       (let bs = real block_size;
            coeff = 1 / (bs * bs * bs);
            a = (2 * fx / (bs - 1) - f) * 6 * coeff / (bs + 1);
            b = (2 * fy / (bs - 1) - f) * 6 * coeff / (bs + 1);
            c = (2 * fz / (bs - 1) - f) * 6 * coeff / (bs + 1);
            d = f * coeff - ((bs - 1) * a / 2 + (bs - 1) * b / 2 + (bs - 1) * c / 2)
        in (a, b, c, d)))"

text \<open>
  Lines 217--282: the first pass. The state is the prediction buffer, the array
  \<^verbatim>\<open>reg_params\<close> (four segments of \<open>nb = num_blocks\<close> entries) and the index of the
  block, \<^verbatim>\<open>reg_params_pos - reg_params\<close>.
\<close>

definition fit_block ::
  "real list \<Rightarrow> nat \<Rightarrow> nat \<Rightarrow> nat \<Rightarrow> nat \<Rightarrow> nat \<times> nat \<times> nat
   \<Rightarrow> real list \<times> real list \<times> nat \<Rightarrow> (real list \<times> real list \<times> nat) option" where
  "fit_block oriData r1 r2 r3 nb blk st =
     (case blk of (i, j, k) \<Rightarrow>
      (case st of (pred_buffer, reg_params, idx) \<Rightarrow>
       (case stage_block 1 False oriData r1 r2 r3 i j k pred_buffer of
          None \<Rightarrow> None
        | Some pred_buffer' \<Rightarrow>
            (case fit_coeffs pred_buffer' of (a, b, c, d) \<Rightarrow>
               Some (pred_buffer',
                     reg_params[idx := a, idx + nb := b, idx + 2 * nb := c, idx + 3 * nb := d],
                     idx + 1)))))"

definition fit_pass :: "real list \<Rightarrow> nat \<Rightarrow> nat \<Rightarrow> nat \<Rightarrow> real list option" where
  "fit_pass oriData r1 r2 r3 =
     (let nb = num_blocks_of r1 * num_blocks_of r2 * num_blocks_of r3
      in map_option (\<lambda>st. fst (snd st))
           (fold_opt (fit_block oriData r1 r2 r3 nb) (block_list r1 r2 r3)
              (replicate 343 0, replicate (4 * nb) 0, 0)))"

section \<open>The mean of mean mode\<close>

text \<open>Lines 296--309; \<open>sum_x\<close> is the accumulator \<^verbatim>\<open>sum\<close>, and \<^verbatim>\<open>num_elements\<close> is the
  length of \<open>oriData\<close>.\<close>

definition mean_step :: "real \<Rightarrow> real \<Rightarrow> real \<Rightarrow> real \<times> nat \<Rightarrow> real \<times> nat" where
  "mean_step dense_pos realPrecision x acc =
     (case acc of (sum_x, mean_count) \<Rightarrow>
        if \<bar>x - dense_pos\<bar> < realPrecision then (sum_x + x, mean_count + 1)
        else (sum_x, mean_count))"

definition compute_mean :: "bool \<Rightarrow> real \<Rightarrow> real \<Rightarrow> real list \<Rightarrow> real" where
  "compute_mean use_mean dense_pos realPrecision oriData =
     (if use_mean
      then (case fold (mean_step dense_pos realPrecision) oriData (0, 0) of
              (sum_x, mean_count) \<Rightarrow> if mean_count > 0 then sum_x / real mean_count else 0)
      else 0)"

section \<open>The selector pass and the compaction of the coefficients\<close>

text \<open>
  Lines 333--589: for every block, the staging copy into the cells \<open>1..6\<close> of the
  buffer, then the sampling. The state is the buffer, the indicators written so far and
  the index of the block.
\<close>

definition select_block ::
  "bool \<Rightarrow> real \<Rightarrow> real \<Rightarrow> real list \<Rightarrow> nat \<Rightarrow> nat \<Rightarrow> nat \<Rightarrow> real list \<Rightarrow> nat
   \<Rightarrow> nat \<times> nat \<times> nat \<Rightarrow> real list \<times> bool list \<times> nat
   \<Rightarrow> (real list \<times> bool list \<times> nat) option" where
  "select_block use_mean noise mean oriData r1 r2 r3 reg_params nb blk st =
     (case blk of (i, j, k) \<Rightarrow>
      (case st of (pred_buffer, indicator, idx) \<Rightarrow>
       (case stage_block (if use_mean then 1 else 0) True oriData r1 r2 r3 i j k pred_buffer of
          None \<Rightarrow> None
        | Some pred_buffer' \<Rightarrow>
            Some (pred_buffer',
                  indicator @ [select_indicator use_mean noise mean pred_buffer' reg_params nb idx],
                  idx + 1))))"

definition select_pass ::
  "bool \<Rightarrow> real \<Rightarrow> real \<Rightarrow> real list \<Rightarrow> nat \<Rightarrow> nat \<Rightarrow> nat \<Rightarrow> real list
   \<Rightarrow> (real list \<times> bool list) option" where
  "select_pass use_mean realPrecision mean oriData r1 r2 r3 reg_params =
     (let nb = num_blocks_of r1 * num_blocks_of r2 * num_blocks_of r3;
          noise = realPrecision * 1.22
      in map_option (\<lambda>st. (fst st, fst (snd st)))
           (fold_opt (select_block use_mean noise mean oriData r1 r2 r3 reg_params nb)
              (block_list r1 r2 r3) (replicate 343 0, [], 0)))"

text \<open>Lines 591--603: the coefficients of the regression blocks move to the front.\<close>

definition compact_step :: "nat \<Rightarrow> bool list \<Rightarrow> nat \<Rightarrow> real list \<times> nat \<Rightarrow> real list \<times> nat" where
  "compact_step nb indicator i st =
     (case st of (reg_params, reg_count) \<Rightarrow>
        if \<not> indicator ! i
        then (let rp1 = reg_params[reg_count := reg_params ! i];
                  rp2 = rp1[reg_count + nb := rp1 ! (i + nb)];
                  rp3 = rp2[reg_count + 2 * nb := rp2 ! (i + 2 * nb)];
                  rp4 = rp3[reg_count + 3 * nb := rp3 ! (i + 3 * nb)]
              in (rp4, reg_count + 1))
        else (reg_params, reg_count))"

definition compact_params :: "nat \<Rightarrow> bool list \<Rightarrow> real list \<Rightarrow> real list \<times> nat" where
  "compact_params nb indicator reg_params =
     fold (compact_step nb indicator) [0..<nb] (reg_params, 0)"

section \<open>Error-bounded quantization of one value\<close>

text \<open>
  The quantization step occurs five times in the source with the same text: for a
  coefficient (lines 639--658, capacity 65536, radius 32768, the prediction is the
  running value), for a sample of a regression block (lines 719--739 and 869--889,
  capacity \<^verbatim>\<open>intvCapacity\<close>) and for a sample of a Lorenzo block (lines 779--799 and
  923--942, capacity \<^verbatim>\<open>intvCapacity - 2\<close>). The result is the symbol, the
  reconstructed value, and the value appended to the unpredictable data, if any.
  With a precision of zero the quotient is an infinity or a NaN and the comparison
  with the capacity is false.
\<close>

definition quantize :: "real \<Rightarrow> int \<Rightarrow> int \<Rightarrow> real \<Rightarrow> real \<Rightarrow> int \<times> real \<times> real option" where
  "quantize precision capacity radius pred curData =
     (let diff = curData - pred;
          itvNum = \<bar>diff\<bar> / precision + 1
      in if precision \<noteq> 0 \<and> itvNum < real_of_int capacity
         then (let itvNum' = (if diff < 0 then - itvNum else itvNum);
                   ty = c_trunc (itvNum' / 2) + radius;
                   pred' = pred + 2 * real_of_int (ty - radius) * precision
               in if \<bar>curData - pred'\<bar> > precision
                  then (0, curData, Some curData)
                  else (ty, pred', None))
         else (0, curData, Some curData))"

section \<open>The coefficient quantizer\<close>

definition rel_param_err :: real where
  "rel_param_err = 0.025"

definition coeff_intvCapacity_sz :: int where
  "coeff_intvCapacity_sz = 65536"

definition coeff_intvRadius :: int where
  "coeff_intvRadius = coeff_intvCapacity_sz div 2"

text \<open>\<^verbatim>\<open>precision[e]\<close>, lines 607--621.\<close>

definition coeff_precision :: "real \<Rightarrow> nat \<Rightarrow> real" where
  "coeff_precision realPrecision e =
     (if e < 3 then rel_param_err * realPrecision / real block_size
      else rel_param_err * realPrecision)"

text \<open>
  The state of the loops of lines 633--662: \<^verbatim>\<open>reg_params\<close> (written in place through
  \<^verbatim>\<open>reg_params_separte[e] = reg_params + e * num_blocks\<close>), \<^verbatim>\<open>last_coeffcients\<close>, and
  for each slot the symbols \<^verbatim>\<open>coeff_type[e][0..coeff_index)\<close> and the unpredictable
  coefficients \<^verbatim>\<open>coeff_unpred_data[e][0..coeff_unpredictable_count[e])\<close>.
\<close>

record coeff_state =
  cs_reg_params :: "real list"
  cs_last_coeffcients :: "real list"
  cs_coeff_type :: "int list list"
  cs_coeff_unpred_data :: "real list list"

definition coeff_step :: "real \<Rightarrow> nat \<Rightarrow> nat \<Rightarrow> nat \<Rightarrow> coeff_state \<Rightarrow> coeff_state" where
  "coeff_step realPrecision nb i e s =
     (let cur_coeff = cs_reg_params s ! (e * nb + i)
      in (case quantize (coeff_precision realPrecision e) coeff_intvCapacity_sz coeff_intvRadius
                 (cs_last_coeffcients s ! e) cur_coeff of
            (ty, last', u) \<Rightarrow>
              \<lparr> cs_reg_params = (cs_reg_params s)[e * nb + i := last'],
                cs_last_coeffcients = (cs_last_coeffcients s)[e := last'],
                cs_coeff_type = (cs_coeff_type s)[e := cs_coeff_type s ! e @ [ty]],
                cs_coeff_unpred_data =
                  (case u of
                     None \<Rightarrow> cs_coeff_unpred_data s
                   | Some v \<Rightarrow> (cs_coeff_unpred_data s)[e := cs_coeff_unpred_data s ! e @ [v]]) \<rparr>))"

definition coeff_init :: "real list \<Rightarrow> coeff_state" where
  "coeff_init reg_params =
     \<lparr> cs_reg_params = reg_params,
       cs_last_coeffcients = [0, 0, 0, 0],
       cs_coeff_type = [[], [], [], []],
       cs_coeff_unpred_data = [[], [], [], []] \<rparr>"

definition coeff_quantize :: "real \<Rightarrow> nat \<Rightarrow> nat \<Rightarrow> real list \<Rightarrow> coeff_state" where
  "coeff_quantize realPrecision nb reg_count reg_params =
     fold (\<lambda>i s. fold (coeff_step realPrecision nb i) [0..<4] s) [0..<reg_count]
          (coeff_init reg_params)"

section \<open>The sample quantizer\<close>

text \<open>
  The loop nest over the cells of a block (lines 711--746, 762--807, 861--896 and
  912--949): \<^verbatim>\<open>cur_data_pos\<close> starts at the cell \<open>(1, 1, 1)\<close>, advances by one after
  each cell, by one more after each row and by \<^verbatim>\<open>pred_buffer_block_size\<close> more after
  each plane. \<open>f\<close> is the body, applied to the pointer and the local coordinates.
\<close>

definition walk_block :: "(nat \<Rightarrow> nat \<Rightarrow> nat \<Rightarrow> nat \<Rightarrow> 's \<Rightarrow> 's) \<Rightarrow> 's \<Rightarrow> 's" where
  "walk_block f s0 =
     snd (fold (\<lambda>ii (p, s).
                  (case fold (\<lambda>jj (p, s).
                                (case fold (\<lambda>kk (p, s). (p + 1, f p ii jj kk s))
                                           [0..<block_size] (p, s) of
                                   (p, s) \<Rightarrow> (p + 1, s)))
                             [0..<block_size] (p, s) of
                     (p, s) \<Rightarrow> (p + pred_buffer_block_size, s)))
               [0..<block_size]
               (pred_buffer_block_size * pred_buffer_block_size + pred_buffer_block_size + 1, s0))"

text \<open>
  A cell of a regression block: the state is the symbols \<^verbatim>\<open>type[0..index)\<close> and the
  unpredictable values of the block. The reconstruction stays in the local \<^verbatim>\<open>pred\<close>;
  the buffer is not written.
\<close>

definition quant_reg_cell ::
  "real \<Rightarrow> int \<Rightarrow> int \<Rightarrow> real list \<Rightarrow> nat \<Rightarrow> nat \<Rightarrow> real list
   \<Rightarrow> nat \<Rightarrow> nat \<Rightarrow> nat \<Rightarrow> nat \<Rightarrow> int list \<times> real list \<Rightarrow> int list \<times> real list" where
  "quant_reg_cell realPrecision intvCapacity intvRadius reg_params nb idx pred_buffer p ii jj kk st =
     (case st of (tys, unpredictable_data) \<Rightarrow>
       (let curData = pred_buffer ! p;
            pred = pred_reg_at reg_params nb idx (real ii) (real jj) (real kk)
        in (case quantize realPrecision intvCapacity intvRadius pred curData of
              (ty, pred', u) \<Rightarrow>
                (tys @ [ty],
                 (case u of None \<Rightarrow> unpredictable_data
                          | Some v \<Rightarrow> unpredictable_data @ [v])))))"

text \<open>
  A cell of a Lorenzo block: the reconstruction is written back to the cell, which the
  predictions of the later cells read. In mean mode a cell within \<^verbatim>\<open>realPrecision\<close>
  of the mean gets the symbol 1 and the mean.
\<close>

definition quant_sz_cell ::
  "bool \<Rightarrow> real \<Rightarrow> real \<Rightarrow> int \<Rightarrow> int
   \<Rightarrow> nat \<Rightarrow> nat \<Rightarrow> nat \<Rightarrow> nat \<Rightarrow> real list \<times> int list \<times> real list
   \<Rightarrow> real list \<times> int list \<times> real list" where
  "quant_sz_cell use_mean realPrecision mean intvCapacity intvRadius p ii jj kk st =
     (case st of (pred_buffer, tys, unpredictable_data) \<Rightarrow>
       (let curData = pred_buffer ! p
        in if use_mean \<and> \<bar>curData - mean\<bar> \<le> realPrecision
           then (pred_buffer[p := mean], tys @ [1], unpredictable_data)
           else (case quantize realPrecision (intvCapacity - 2) intvRadius
                        (pred_sz_at pred_buffer p) curData of
                   (ty, v, u) \<Rightarrow>
                     (pred_buffer[p := v], tys @ [ty],
                      (case u of None \<Rightarrow> unpredictable_data
                               | Some w \<Rightarrow> unpredictable_data @ [w])))))"

text \<open>
  The quantization of one staged block (lines 701--811 and 851--953): the buffer after the
  block, the symbols of the block, its unpredictable values, and the index of the next
  coefficients, which advances on a regression block only.
\<close>

definition quantize_block ::
  "bool \<Rightarrow> real \<Rightarrow> real \<Rightarrow> int \<Rightarrow> int \<Rightarrow> real list \<Rightarrow> nat \<Rightarrow> bool \<Rightarrow> nat \<Rightarrow> real list
   \<Rightarrow> real list \<times> int list \<times> real list \<times> nat" where
  "quantize_block use_mean realPrecision mean intvCapacity intvRadius reg_params nb ind idx
       pred_buffer =
     (if \<not> ind
      then (case walk_block (quant_reg_cell realPrecision intvCapacity intvRadius reg_params nb
                               idx pred_buffer) ([], []) of
              (tys, unp) \<Rightarrow> (pred_buffer, tys, unp, idx + 1))
      else (case walk_block (quant_sz_cell use_mean realPrecision mean intvCapacity intvRadius)
                   (pred_buffer, [], []) of
              (pred_buffer', tys, unp) \<Rightarrow> (pred_buffer', tys, unp, idx)))"

text \<open>
  The quantization pass (lines 664--960). The state: the buffer, the index of the next
  coefficients, the index of the block, the symbols \<^verbatim>\<open>result_type\<close>, the unpredictable
  values \<^verbatim>\<open>result_unpredictable_data\<close> (\<^verbatim>\<open>total_unpred\<close> is its length) and
  \<^verbatim>\<open>blockwise_unpred_count\<close>.
\<close>

record quant_state =
  qs_pred_buffer :: "real list"
  qs_reg_idx :: nat
  qs_block :: nat
  qs_type :: "int list"
  qs_unpredictable_data :: "real list"
  qs_blockwise_unpred_count :: "nat list"

definition quantize_step ::
  "bool \<Rightarrow> real \<Rightarrow> real \<Rightarrow> int \<Rightarrow> int \<Rightarrow> real list \<Rightarrow> nat \<Rightarrow> nat \<Rightarrow> nat
   \<Rightarrow> real list \<Rightarrow> nat \<Rightarrow> bool list \<Rightarrow> nat \<times> nat \<times> nat \<Rightarrow> quant_state \<Rightarrow> quant_state option" where
  "quantize_step use_mean realPrecision mean intvCapacity intvRadius oriData r1 r2 r3
       reg_params nb indicator blk s =
     (case blk of (i, j, k) \<Rightarrow>
       (case stage_block (if use_mean then 1 else 0) True oriData r1 r2 r3 i j k
               (qs_pred_buffer s) of
          None \<Rightarrow> None
        | Some staged \<Rightarrow>
            (case quantize_block use_mean realPrecision mean intvCapacity intvRadius reg_params nb
                    (indicator ! qs_block s) (qs_reg_idx s) staged of
               (pred_buffer', tys, unp, idx') \<Rightarrow>
                 Some \<lparr> qs_pred_buffer = pred_buffer',
                        qs_reg_idx = idx',
                        qs_block = qs_block s + 1,
                        qs_type = qs_type s @ tys,
                        qs_unpredictable_data = qs_unpredictable_data s @ unp,
                        qs_blockwise_unpred_count = qs_blockwise_unpred_count s @ [length unp] \<rparr>)))"

definition quantize_pass ::
  "bool \<Rightarrow> real \<Rightarrow> real \<Rightarrow> int \<Rightarrow> int \<Rightarrow> real list \<Rightarrow> nat \<Rightarrow> nat \<Rightarrow> nat
   \<Rightarrow> real list \<Rightarrow> bool list \<Rightarrow> real list \<Rightarrow> quant_state option" where
  "quantize_pass use_mean realPrecision mean intvCapacity intvRadius oriData r1 r2 r3
       reg_params indicator pred_buffer =
     fold_opt (quantize_step use_mean realPrecision mean intvCapacity intvRadius oriData r1 r2 r3
                 reg_params (num_blocks_of r1 * num_blocks_of r2 * num_blocks_of r3) indicator)
       (block_list r1 r2 r3)
       \<lparr> qs_pred_buffer = pred_buffer, qs_reg_idx = 0, qs_block = 0, qs_type = [],
         qs_unpredictable_data = [], qs_blockwise_unpred_count = [] \<rparr>"

section \<open>From the volume to the quantized data\<close>

text \<open>
  The tuning parameters the function reads (lines 284--294 and 320--321):
  \<^verbatim>\<open>exe_params->intvCapacity\<close> and \<^verbatim>\<open>exe_params->intvRadius\<close> as they are after the
  optional call of \<^verbatim>\<open>updateQuantizationInfo\<close>, and \<^verbatim>\<open>use_mean\<close>, \<^verbatim>\<open>dense_pos\<close> and
  \<^verbatim>\<open>quantization_intervals\<close> as the interval optimizer, which is not part of this
  file of the repository, leaves them.
\<close>

record sz_params =
  cfg_intvCapacity :: int
  cfg_intvRadius :: int
  cfg_use_mean :: bool
  cfg_dense_pos :: real
  cfg_quantization_intervals :: nat

record sz_quantized =
  q_mean :: real
  q_indicator :: "bool list"
  q_reg_count :: nat
  q_reg_params :: "real list"
  q_coeff_type :: "int list list"
  q_coeff_unpred_data :: "real list list"
  q_type :: "int list"
  q_unpredictable_data :: "real list"
  q_blockwise_unpred_count :: "nat list"

definition sz_quantize_volume ::
  "sz_params \<Rightarrow> real list \<Rightarrow> nat \<Rightarrow> nat \<Rightarrow> nat \<Rightarrow> real \<Rightarrow> sz_quantized option" where
  "sz_quantize_volume c oriData r1 r2 r3 realPrecision =
     (let nb = num_blocks_of r1 * num_blocks_of r2 * num_blocks_of r3
      in case fit_pass oriData r1 r2 r3 of
           None \<Rightarrow> None
         | Some reg_params \<Rightarrow>
             (let mean = compute_mean (cfg_use_mean c) (cfg_dense_pos c) realPrecision oriData
              in case select_pass (cfg_use_mean c) realPrecision mean oriData r1 r2 r3 reg_params of
                   None \<Rightarrow> None
                 | Some (pred_buffer, indicator) \<Rightarrow>
                     (case compact_params nb indicator reg_params of
                        (reg_params', reg_count) \<Rightarrow>
                          (let cs = coeff_quantize realPrecision nb reg_count reg_params'
                           in case quantize_pass (cfg_use_mean c) realPrecision mean (cfg_intvCapacity c)
                                     (cfg_intvRadius c) oriData r1 r2 r3 (cs_reg_params cs) indicator
                                     pred_buffer of
                                None \<Rightarrow> None
                              | Some qs \<Rightarrow>
                                  Some \<lparr> q_mean = mean,
                                         q_indicator = indicator,
                                         q_reg_count = reg_count,
                                         q_reg_params = cs_reg_params cs,
                                         q_coeff_type = cs_coeff_type cs,
                                         q_coeff_unpred_data = cs_coeff_unpred_data cs,
                                         q_type = qs_type qs,
                                         q_unpredictable_data = qs_unpredictable_data qs,
                                         q_blockwise_unpred_count =
                                           qs_blockwise_unpred_count qs \<rparr>))))"

text \<open>\<^verbatim>\<open>total_unpred\<close>: the number of escape-coded elements of the call.\<close>

definition total_unpred :: "sz_quantized \<Rightarrow> nat" where
  "total_unpred q = length (q_unpredictable_data q)"

section \<open>The container serializer\<close>

text \<open>
  Lines 962--1126. The serializer calls functions of the library that are not part of
  this file of the repository; they are parameters of the embedding, collected in a
  record, and nothing is assumed about them:
  \<^item> \<^verbatim>\<open>MetaDataByteLength\<close> and \<^verbatim>\<open>exe_params->SZ_SIZE_TYPE\<close> (``4 or 8'', line 994);
  \<^item> the bytes \<^verbatim>\<open>initRandomAccessBytes\<close>, \<^verbatim>\<open>sizeToBytes\<close>, \<^verbatim>\<open>intToBytes_bigEndian\<close> and
    \<^verbatim>\<open>doubleToBytes\<close> store at the address they are given;
  \<^item> \<open>float_bytes\<close> and \<open>size_t_bytes\<close>: the bytes of a \<^verbatim>\<open>float\<close> and of a
    \<^verbatim>\<open>size_t\<close> object, which the source copies with \<^verbatim>\<open>memcpy\<close>;
  \<^item> the Huffman coder: \<open>huffman_codes stateNum syms\<close> is the number of states with a
    code after \<^verbatim>\<open>init\<close> on the symbols \<open>syms\<close>, \<^verbatim>\<open>convert_HuffTree_to_bytes_anyStates\<close>
    gives the bytes of the tree (\<^verbatim>\<open>treeByteSize\<close> is their number), and
    \<open>encode stateNum syms xs\<close> gives the bytes \<^verbatim>\<open>encode\<close> writes for the symbols
    \<open>xs\<close> with the tree built from \<open>syms\<close> (\<^verbatim>\<open>typeArray_size\<close> is their number);
  \<^item> \<^verbatim>\<open>SZ_compress_args\<close> on an integer array, and the bit packing
    \<^verbatim>\<open>convertIntArray2ByteArray_fast_1b_to_result\<close> of the indicators.
\<close>

type_synonym byte = "8 word"

datatype sz_dtype = SZ_INT32 | SZ_UINT16

record sz_externals =
  MetaDataByteLength :: nat
  SZ_SIZE_TYPE :: nat
  initRandomAccessBytes :: "byte list"
  sizeToBytes :: "nat \<Rightarrow> byte list"
  intToBytes_bigEndian :: "nat \<Rightarrow> byte list"
  doubleToBytes :: "real \<Rightarrow> byte list"
  float_bytes :: "real \<Rightarrow> byte list"
  size_t_bytes :: "nat \<Rightarrow> byte list"
  huffman_codes :: "nat \<Rightarrow> int list \<Rightarrow> nat"
  convert_HuffTree_to_bytes_anyStates :: "nat \<Rightarrow> int list \<Rightarrow> nat \<Rightarrow> byte list"
  encode :: "nat \<Rightarrow> int list \<Rightarrow> int list \<Rightarrow> byte list"
  SZ_compress_args :: "sz_dtype \<Rightarrow> nat list \<Rightarrow> byte list"
  convertIntArray2ByteArray_fast_1b_to_result :: "bool list \<Rightarrow> byte list"

text \<open>
  The state of the serializer is the pointer \<^verbatim>\<open>result_pos\<close>, as an offset from
  \<^verbatim>\<open>result\<close>, and the stores made so far, each with the offset of its first byte.
  The code is a sequence of two kinds of statements: a store of some bytes at
  \<^verbatim>\<open>result_pos + off\<close>, and \<^verbatim>\<open>result_pos += n\<close>.
\<close>

record ser_state =
  ser_writes :: "(nat \<times> byte list) list"
  result_pos :: nat

datatype stmt = Store nat "byte list" | Advance nat

fun exec :: "stmt \<Rightarrow> ser_state \<Rightarrow> ser_state" where
  "exec (Store off bs) s = s\<lparr> ser_writes := ser_writes s @ [(result_pos s + off, bs)] \<rparr>"
| "exec (Advance n) s = s\<lparr> result_pos := result_pos s + n \<rparr>"

definition run :: "stmt list \<Rightarrow> ser_state \<Rightarrow> ser_state" where
  "run stmts s = fold exec stmts s"

text \<open>
  Lines 963--978: the tree of the symbols \<^verbatim>\<open>result_type\<close>, with
  \<^verbatim>\<open>nodeCount = nodeCount * 2 - 1\<close> on \<^verbatim>\<open>size_t\<close>. Lines 989--1017: the header, up to
  the indicator bitmap. Lines 1020--1057: the section of the coefficient slot \<open>e\<close>, and
  the guard \<^verbatim>\<open>if (reg_count > 0)\<close> around the four slots; the encoded symbols are stored
  at \<^verbatim>\<open>result_pos + sizeof(size_t)\<close> before their length is stored at \<^verbatim>\<open>result_pos\<close>.
  Lines 1061--1115: the rest. Lines 982--988: the argument of the one \<^verbatim>\<open>calloc\<close>.
\<close>

definition meta_data_offset :: "sz_externals \<Rightarrow> nat" where
  "meta_data_offset ext = 3 + 1 + MetaDataByteLength ext"

definition max_num_block_elements :: nat where
  "max_num_block_elements = block_size * block_size * block_size"

definition node_count :: "nat \<Rightarrow> nat" where
  "node_count n = (n * 2 + (2 ^ 64 - 1)) mod 2 ^ 64"

definition main_stateNum :: "sz_params \<Rightarrow> nat" where
  "main_stateNum c = 2 * cfg_quantization_intervals c"

definition main_nodeCount :: "sz_externals \<Rightarrow> sz_params \<Rightarrow> sz_quantized \<Rightarrow> nat" where
  "main_nodeCount ext c q = node_count (huffman_codes ext (main_stateNum c) (q_type q))"

definition main_treeBytes :: "sz_externals \<Rightarrow> sz_params \<Rightarrow> sz_quantized \<Rightarrow> byte list" where
  "main_treeBytes ext c q =
     convert_HuffTree_to_bytes_anyStates ext (main_stateNum c) (q_type q) (main_nodeCount ext c q)"

definition indicator_bytes :: "sz_externals \<Rightarrow> sz_quantized \<Rightarrow> byte list" where
  "indicator_bytes ext q = convertIntArray2ByteArray_fast_1b_to_result ext (q_indicator q)"

definition float_array :: "sz_externals \<Rightarrow> real list \<Rightarrow> byte list" where
  "float_array ext xs = concat (map (float_bytes ext) xs)"

definition ser_header ::
  "sz_externals \<Rightarrow> sz_params \<Rightarrow> sz_quantized \<Rightarrow> nat \<Rightarrow> nat \<Rightarrow> nat \<Rightarrow> real \<Rightarrow> stmt list" where
  "ser_header ext c q r1 r2 r3 realPrecision =
     (let num_elements = r1 * r2 * r3;
          treeBytes = main_treeBytes ext c q;
          treeByteSize = length treeBytes;
          indicator_size = length (indicator_bytes ext q)
      in [Store 0 (initRandomAccessBytes ext), Advance (meta_data_offset ext),
          Store 0 (sizeToBytes ext num_elements), Advance (SZ_SIZE_TYPE ext),
          Store 0 (intToBytes_bigEndian ext block_size), Advance 4,
          Store 0 (doubleToBytes ext realPrecision), Advance 8,
          Store 0 (intToBytes_bigEndian ext (cfg_quantization_intervals c)), Advance 4,
          Store 0 (intToBytes_bigEndian ext treeByteSize), Advance 4,
          Store 0 (intToBytes_bigEndian ext (main_nodeCount ext c q)), Advance 4,
          Store 0 treeBytes, Advance treeByteSize,
          Store 0 [if cfg_use_mean c then 1 else 0], Advance 1,
          Store 0 (float_bytes ext (q_mean q)), Advance 4,
          Store 0 (indicator_bytes ext q), Advance indicator_size])"

definition coeff_stateNum :: nat where
  "coeff_stateNum = nat (2 * coeff_intvCapacity_sz)"

definition coeff_nodeCount :: "sz_externals \<Rightarrow> sz_quantized \<Rightarrow> nat \<Rightarrow> nat" where
  "coeff_nodeCount ext q e = node_count (huffman_codes ext coeff_stateNum (q_coeff_type q ! e))"

definition coeff_treeBytes :: "sz_externals \<Rightarrow> sz_quantized \<Rightarrow> nat \<Rightarrow> byte list" where
  "coeff_treeBytes ext q e =
     convert_HuffTree_to_bytes_anyStates ext coeff_stateNum (q_coeff_type q ! e)
       (coeff_nodeCount ext q e)"

definition coeff_encoded :: "sz_externals \<Rightarrow> sz_quantized \<Rightarrow> nat \<Rightarrow> byte list" where
  "coeff_encoded ext q e = encode ext coeff_stateNum (q_coeff_type q ! e) (q_coeff_type q ! e)"

definition ser_coeff_slot :: "sz_externals \<Rightarrow> sz_quantized \<Rightarrow> real \<Rightarrow> nat \<Rightarrow> stmt list" where
  "ser_coeff_slot ext q realPrecision e =
     (let treeBytes = coeff_treeBytes ext q e;
          treeByteSize = length treeBytes;
          typeArray_size = length (coeff_encoded ext q e);
          coeff_unpredictable_count = length (q_coeff_unpred_data q ! e)
      in [Store 0 (doubleToBytes ext (coeff_precision realPrecision e)), Advance 8,
          Store 0 (intToBytes_bigEndian ext (nat coeff_intvRadius)), Advance 4,
          Store 0 (intToBytes_bigEndian ext treeByteSize), Advance 4,
          Store 0 (intToBytes_bigEndian ext (coeff_nodeCount ext q e)), Advance 4,
          Store 0 treeBytes, Advance treeByteSize,
          Store 8 (coeff_encoded ext q e),
          Store 0 (sizeToBytes ext typeArray_size),
          Advance (8 + typeArray_size),
          Store 0 (intToBytes_bigEndian ext coeff_unpredictable_count), Advance 4,
          Store 0 (float_array ext (q_coeff_unpred_data q ! e)),
          Advance (coeff_unpredictable_count * 4)])"

definition ser_coeffs :: "sz_externals \<Rightarrow> sz_quantized \<Rightarrow> real \<Rightarrow> stmt list" where
  "ser_coeffs ext q realPrecision =
     (if 0 < q_reg_count q then concat (map (ser_coeff_slot ext q realPrecision) [0..<4]) else [])"

definition compressed_bw_unpred_count :: "sz_externals \<Rightarrow> sz_quantized \<Rightarrow> byte list" where
  "compressed_bw_unpred_count ext q = SZ_compress_args ext SZ_INT32 (q_blockwise_unpred_count q)"

definition type_array_blocks ::
  "sz_externals \<Rightarrow> sz_params \<Rightarrow> sz_quantized \<Rightarrow> nat \<Rightarrow> nat \<Rightarrow> nat \<Rightarrow> byte list list" where
  "type_array_blocks ext c q r1 r2 r3 =
     map (\<lambda>b. encode ext (main_stateNum c) (q_type q)
                 (take max_num_block_elements (drop (b * max_num_block_elements) (q_type q))))
         [0..<num_blocks_of r1 * num_blocks_of r2 * num_blocks_of r3]"

definition type_array_buffer ::
  "sz_externals \<Rightarrow> sz_params \<Rightarrow> sz_quantized \<Rightarrow> nat \<Rightarrow> nat \<Rightarrow> nat \<Rightarrow> byte list" where
  "type_array_buffer ext c q r1 r2 r3 = concat (type_array_blocks ext c q r1 r2 r3)"

definition compressed_type_array_block ::
  "sz_externals \<Rightarrow> sz_params \<Rightarrow> sz_quantized \<Rightarrow> nat \<Rightarrow> nat \<Rightarrow> nat \<Rightarrow> byte list" where
  "compressed_type_array_block ext c q r1 r2 r3 =
     SZ_compress_args ext SZ_UINT16
       (map (\<lambda>bs. length bs mod 65536) (type_array_blocks ext c q r1 r2 r3))"

definition ser_tail ::
  "sz_externals \<Rightarrow> sz_params \<Rightarrow> sz_quantized \<Rightarrow> nat \<Rightarrow> nat \<Rightarrow> nat \<Rightarrow> stmt list" where
  "ser_tail ext c q r1 r2 r3 =
     (let compressed_blockwise_unpred_count_size = length (compressed_bw_unpred_count ext q);
          compressed_type_array_block_size =
            length (compressed_type_array_block ext c q r1 r2 r3);
          total_type_array_size = length (type_array_buffer ext c q r1 r2 r3)
      in [Store 0 (size_t_bytes ext (total_unpred q)), Advance 8,
          Store 0 (size_t_bytes ext compressed_blockwise_unpred_count_size), Advance 8,
          Store 0 (compressed_bw_unpred_count ext q),
          Advance compressed_blockwise_unpred_count_size,
          Store 0 (float_array ext (q_unpredictable_data q)), Advance (total_unpred q * 4),
          Store 0 (size_t_bytes ext compressed_type_array_block_size), Advance 8,
          Store 0 (compressed_type_array_block ext c q r1 r2 r3),
          Advance compressed_type_array_block_size,
          Store 0 (type_array_buffer ext c q r1 r2 r3), Advance total_type_array_size])"

definition sz_serialize ::
  "sz_externals \<Rightarrow> sz_params \<Rightarrow> sz_quantized \<Rightarrow> nat \<Rightarrow> nat \<Rightarrow> nat \<Rightarrow> real \<Rightarrow> ser_state" where
  "sz_serialize ext c q r1 r2 r3 realPrecision =
     run (ser_header ext c q r1 r2 r3 realPrecision @ ser_coeffs ext q realPrecision
          @ ser_tail ext c q r1 r2 r3)
       \<lparr> ser_writes = [], result_pos = 0 \<rparr>"

definition totalEncodeSize ::
  "sz_externals \<Rightarrow> sz_params \<Rightarrow> sz_quantized \<Rightarrow> nat \<Rightarrow> nat \<Rightarrow> nat \<Rightarrow> real \<Rightarrow> nat" where
  "totalEncodeSize ext c q r1 r2 r3 realPrecision =
     result_pos (sz_serialize ext c q r1 r2 r3 realPrecision)"

definition result_alloc_size ::
  "sz_externals \<Rightarrow> sz_params \<Rightarrow> sz_quantized \<Rightarrow> nat \<Rightarrow> nat \<Rightarrow> nat \<Rightarrow> nat" where
  "result_alloc_size ext c q r1 r2 r3 =
     (let num_blocks = num_blocks_of r1 * num_blocks_of r2 * num_blocks_of r3;
          num_elements = r1 * r2 * r3;
          treeByteSize = length (main_treeBytes ext c q)
      in meta_data_offset ext + SZ_SIZE_TYPE ext + 8 + 4 + 4 + treeByteSize
         + num_blocks * 2 + num_blocks * 2 + num_blocks * 4
         + total_unpred q * 4 + num_elements * 4)"

section \<open>Notions the theorems are stated with\<close>

text \<open>
  The local coordinates of the cells of a block, in the order of the loop nest, and
  the offset of the cell of the staging buffer that holds the sample at \<open>(ii, jj, kk)\<close>.
\<close>

definition block_coords :: "(nat \<times> nat \<times> nat) list" where
  "block_coords =
     [(ii, jj, kk). ii \<leftarrow> [0..<block_size], jj \<leftarrow> [0..<block_size], kk \<leftarrow> [0..<block_size]]"

definition cell_of :: "nat \<times> nat \<times> nat \<Rightarrow> nat" where
  "cell_of c = (case c of (ii, jj, kk) \<Rightarrow> cell (ii + 1) (jj + 1) (kk + 1))"


text \<open>
  The values, out of \<open>vals\<close>, whose symbol in \<open>tys\<close> is the escape code 0, in
  their order.
\<close>

definition escaped_values :: "real list \<Rightarrow> int list \<Rightarrow> real list" where
  "escaped_values vals tys = map fst (filter (\<lambda>x. snd x = 0) (zip vals tys))"

text \<open>
  The error bound of one cell of a Lorenzo block, between the staged buffer and the
  buffer after the block.
\<close>

definition cell_ok :: "real \<Rightarrow> real list \<Rightarrow> real list \<Rightarrow> nat \<times> nat \<times> nat \<Rightarrow> int \<Rightarrow> bool" where
  "cell_ok realPrecision buf buf' c ty \<longleftrightarrow>
     (ty = 0 \<and> buf' ! cell_of c = buf ! cell_of c)
     \<or> (ty \<noteq> 0 \<and> \<bar>buf' ! cell_of c - buf ! cell_of c\<bar> \<le> realPrecision)"



text \<open>
  Notions for the staging copy. \<open>adv off r b n\<close> is the number of times the source
  pointer of an axis of extent \<open>r\<close> has advanced before the iteration \<open>n\<close> of the copy
  of the block \<open>b\<close>: it advances in the iteration \<open>m\<close> if \<open>b * block_size + m + off < r\<close>.
  \<open>src_index\<close> is the index the copy reads for the local coordinates \<open>c\<close>, and
  \<open>dst_index\<close> the cell it writes. \<open>loop_body\<close> is the shape the three copy loops
  share. \<open>axis_ok\<close> holds of the blocks of an axis for which the copy clamps at the
  last valid index: all blocks if the guard has the \<open>+ 1\<close>, the blocks that lie
  inside the volume otherwise.
\<close>

definition adv :: "nat \<Rightarrow> nat \<Rightarrow> nat \<Rightarrow> nat \<Rightarrow> nat" where
  "adv off r b n = min n (r - off - b * block_size)"

definition src_index :: "nat \<Rightarrow> nat \<Rightarrow> nat \<Rightarrow> nat \<Rightarrow> nat \<Rightarrow> nat \<Rightarrow> nat \<Rightarrow> nat \<times> nat \<times> nat \<Rightarrow> nat" where
  "src_index off r1 r2 r3 i j k c =
     (case c of (ii, jj, kk) \<Rightarrow>
        i * block_size * (r2 * r3) + j * block_size * r3 + k * block_size
        + adv off r1 i ii * (r2 * r3) + adv off r2 j jj * r3 + adv off r3 k kk)"

definition dst_index :: "bool \<Rightarrow> nat \<times> nat \<times> nat \<Rightarrow> nat" where
  "dst_index halo c =
     (case c of (ii, jj, kk) \<Rightarrow>
        if halo then cell (ii + 1) (jj + 1) (kk + 1)
        else ii * (block_size * block_size) + jj * block_size + kk)"

definition loop_body ::
  "(nat \<Rightarrow> real list \<times> nat \<times> nat \<Rightarrow> (real list \<times> nat \<times> nat) option) \<Rightarrow> nat \<Rightarrow> nat \<Rightarrow> nat
   \<Rightarrow> nat \<Rightarrow> real list \<times> nat \<times> nat \<Rightarrow> (real list \<times> nat \<times> nat) option" where
  "loop_body f e lm d m s =
     (case s of (b, p, q) \<Rightarrow>
       (case f m (b, p, q) of
          None \<Rightarrow> None
        | Some (b', p', z) \<Rightarrow> Some (b', p' + e, if m < lm then q + d else q)))"

definition axis_ok :: "nat \<Rightarrow> nat \<Rightarrow> nat \<Rightarrow> bool" where
  "axis_ok off r b \<longleftrightarrow> b * block_size < r \<and> (off = 1 \<or> off = 0 \<and> b * block_size + block_size \<le> r)"

text \<open>
  The view of a staged \<open>7\<^sup>3\<close> buffer the evaluation of a whole call uses: the cell of
  the local coordinates \<open>c\<close> holds \<open>\<phi> c\<close>, and the halo cells hold the zeros the
  buffer is initialised with.
\<close>

definition staged :: "(nat \<times> nat \<times> nat \<Rightarrow> real) \<Rightarrow> real list \<Rightarrow> bool" where
  "staged \<phi> b \<longleftrightarrow>
     length b = 343 \<and> (\<forall>c\<in>set block_coords. b ! cell_of c = \<phi> c)
     \<and> (\<forall>q<343. q \<notin> cell_of ` set block_coords \<longrightarrow> b ! q = 0)"

text \<open>
  Notions for the layout of the container. \<open>writes_from p stmts\<close> is the list of the
  stores of \<open>stmts\<close> when \<^verbatim>\<open>result_pos\<close> starts at \<open>p\<close>, and \<open>advance_of\<close> what a
  statement adds to \<^verbatim>\<open>result_pos\<close>. \<open>header_fields\<close>, \<open>slot_fields\<close> and
  \<open>tail_fields\<close> give the stores of the three parts with their offsets in closed form,
  \<open>header_size\<close>, \<open>slot_size\<close> and \<open>tail_size\<close> the bytes the parts advance by.
\<close>

fun writes_from :: "nat \<Rightarrow> stmt list \<Rightarrow> (nat \<times> byte list) list" where
  "writes_from p [] = []"
| "writes_from p (Store off bs # r) = (p + off, bs) # writes_from p r"
| "writes_from p (Advance n # r) = writes_from (p + n) r"

fun advance_of :: "stmt \<Rightarrow> nat" where
  "advance_of (Store off bs) = 0"
| "advance_of (Advance n) = n"

definition header_fields ::
  "sz_externals \<Rightarrow> sz_params \<Rightarrow> sz_quantized \<Rightarrow> nat \<Rightarrow> nat \<Rightarrow> nat \<Rightarrow> real
   \<Rightarrow> (nat \<times> byte list) list" where
  "header_fields ext c q r1 r2 r3 realPrecision =
     (let a = meta_data_offset ext + SZ_SIZE_TYPE ext;
          t = length (main_treeBytes ext c q)
      in [(0, initRandomAccessBytes ext),
          (meta_data_offset ext, sizeToBytes ext (r1 * r2 * r3)),
          (a, intToBytes_bigEndian ext block_size),
          (a + 4, doubleToBytes ext realPrecision),
          (a + 12, intToBytes_bigEndian ext (cfg_quantization_intervals c)),
          (a + 16, intToBytes_bigEndian ext t),
          (a + 20, intToBytes_bigEndian ext (main_nodeCount ext c q)),
          (a + 24, main_treeBytes ext c q),
          (a + 24 + t, [if cfg_use_mean c then 1 else 0]),
          (a + 25 + t, float_bytes ext (q_mean q)),
          (a + 29 + t, indicator_bytes ext q)])"

definition header_size :: "sz_externals \<Rightarrow> sz_params \<Rightarrow> sz_quantized \<Rightarrow> nat" where
  "header_size ext c q =
     meta_data_offset ext + SZ_SIZE_TYPE ext + 29 + length (main_treeBytes ext c q)
     + length (indicator_bytes ext q)"

definition slot_fields ::
  "sz_externals \<Rightarrow> sz_quantized \<Rightarrow> real \<Rightarrow> nat \<Rightarrow> nat \<Rightarrow> (nat \<times> byte list) list" where
  "slot_fields ext q realPrecision p e =
     (let t = length (coeff_treeBytes ext q e);
          n = length (coeff_encoded ext q e);
          u = length (q_coeff_unpred_data q ! e)
      in [(p, doubleToBytes ext (coeff_precision realPrecision e)),
          (p + 8, intToBytes_bigEndian ext (nat coeff_intvRadius)),
          (p + 12, intToBytes_bigEndian ext t),
          (p + 16, intToBytes_bigEndian ext (coeff_nodeCount ext q e)),
          (p + 20, coeff_treeBytes ext q e),
          (p + 20 + t + 8, coeff_encoded ext q e),
          (p + 20 + t, sizeToBytes ext n),
          (p + 28 + t + n, intToBytes_bigEndian ext u),
          (p + 32 + t + n, float_array ext (q_coeff_unpred_data q ! e))])"

definition slot_size :: "sz_externals \<Rightarrow> sz_quantized \<Rightarrow> nat \<Rightarrow> nat" where
  "slot_size ext q e =
     32 + length (coeff_treeBytes ext q e) + length (coeff_encoded ext q e)
     + 4 * length (q_coeff_unpred_data q ! e)"

definition coeffs_size :: "sz_externals \<Rightarrow> sz_quantized \<Rightarrow> nat" where
  "coeffs_size ext q =
     (if 0 < q_reg_count q
      then slot_size ext q 0 + slot_size ext q 1 + slot_size ext q 2 + slot_size ext q 3
      else 0)"

definition coeffs_fields ::
  "sz_externals \<Rightarrow> sz_quantized \<Rightarrow> real \<Rightarrow> nat \<Rightarrow> (nat \<times> byte list) list" where
  "coeffs_fields ext q realPrecision p =
     (if 0 < q_reg_count q
      then slot_fields ext q realPrecision p 0
           @ slot_fields ext q realPrecision (p + slot_size ext q 0) 1
           @ slot_fields ext q realPrecision (p + slot_size ext q 0 + slot_size ext q 1) 2
           @ slot_fields ext q realPrecision
               (p + slot_size ext q 0 + slot_size ext q 1 + slot_size ext q 2) 3
      else [])"

definition tail_fields ::
  "sz_externals \<Rightarrow> sz_params \<Rightarrow> sz_quantized \<Rightarrow> nat \<Rightarrow> nat \<Rightarrow> nat \<Rightarrow> nat
   \<Rightarrow> (nat \<times> byte list) list" where
  "tail_fields ext c q r1 r2 r3 p =
     (let b = length (compressed_bw_unpred_count ext q);
          u = total_unpred q * 4;
          t = length (compressed_type_array_block ext c q r1 r2 r3)
      in [(p, size_t_bytes ext (total_unpred q)),
          (p + 8, size_t_bytes ext b),
          (p + 16, compressed_bw_unpred_count ext q),
          (p + 16 + b, float_array ext (q_unpredictable_data q)),
          (p + 16 + b + u, size_t_bytes ext t),
          (p + 24 + b + u, compressed_type_array_block ext c q r1 r2 r3),
          (p + 24 + b + u + t, type_array_buffer ext c q r1 r2 r3)])"

definition tail_size ::
  "sz_externals \<Rightarrow> sz_params \<Rightarrow> sz_quantized \<Rightarrow> nat \<Rightarrow> nat \<Rightarrow> nat \<Rightarrow> nat" where
  "tail_size ext c q r1 r2 r3 =
     24 + length (compressed_bw_unpred_count ext q) + total_unpred q * 4
     + length (compressed_type_array_block ext c q r1 r2 r3)
     + length (type_array_buffer ext c q r1 r2 r3)"

section \<open>Theorems: the prologue\<close>

lemma num_blocks_axis_zero: "num_blocks_axis 0 = 3074457345618258603"
  by (simp add: num_blocks_axis_def)

text \<open>
  C8, as stated, fails: a call with \<open>r1 = 0\<close> and \<open>realPrecision = -1\<close> is not
  rejected. It goes on to its four allocations; the block count along the first
  axis wraps around to 3074457345618258603, and the first request is 288 bytes.
\<close>

theorem entry_not_rejected_counterexample:
  "entry_mallocs 0 1 1 (- 1) = [288, 288, 12297829382473034416, 1372]"
  by (simp add: entry_mallocs_def num_blocks_axis_def)

text \<open>
  C8, amended: the entry point validates nothing. For all extents and every
  precision the call performs its four allocations; the requests do not depend on
  \<open>realPrecision\<close>, and a zero extent gives 3074457345618258603 blocks along its axis.
\<close>

theorem entry_allocates_unconditionally:
  "length (entry_mallocs r1 r2 r3 realPrecision) = 4
   \<and> entry_mallocs r1 r2 r3 realPrecision = entry_mallocs r1 r2 r3 p'
   \<and> last (entry_mallocs r1 r2 r3 realPrecision) = 1372
   \<and> hd (entry_mallocs 0 r2 r3 realPrecision)
       = 3074457345618258603 * num_blocks_axis r2 * num_blocks_axis r3 * 864"
  by (simp add: entry_mallocs_def Let_def num_blocks_axis_zero)

section \<open>Theorems: the predictor selector\<close>




section \<open>Theorems: error-bounded quantization\<close>

lemma c_trunc_gt: "0 < n \<Longrightarrow> - real_of_int n < x \<Longrightarrow> - n < c_trunc x"
proof (cases "0 \<le> x")
  case True
  assume n: "0 < n"
  have "0 \<le> \<lfloor>x\<rfloor>" using True by (simp only: zero_le_floor)
  with n have "- n < \<lfloor>x\<rfloor>" by linarith
  with True show ?thesis by (simp only: c_trunc_def if_True)
next
  case False
  assume "- real_of_int n < x"
  then have "real_of_int (- n) < real_of_int \<lceil>x\<rceil>" using le_of_int_ceiling[of x] by linarith
  then have "- n < \<lceil>x\<rceil>" by (simp only: of_int_less_iff)
  with False show ?thesis by (simp only: c_trunc_def if_False)
qed

lemma c_trunc_half:
  assumes "0 \<le> q"
  shows "\<bar>q - 2 * real_of_int (c_trunc ((q + 1) / 2))\<bar> \<le> 1"
proof -
  define n where "n = \<lfloor>(q + 1) / 2\<rfloor>"
  have "0 \<le> (q + 1) / 2" using assms by simp
  then have c: "c_trunc ((q + 1) / 2) = n" by (simp only: c_trunc_def n_def if_True)
  have h1: "real_of_int n \<le> (q + 1) / 2" unfolding n_def by linarith
  have h2: "(q + 1) / 2 < real_of_int n + 1" unfolding n_def by linarith
  have l1: "2 * real_of_int n - 1 \<le> q" using h1 by argo
  have l2: "q < 2 * real_of_int n + 1" using h2 by argo
  show ?thesis unfolding c using l1 l2 by (simp only: abs_le_iff) linarith
qed

lemma quantize_cases:
  assumes "quantize precision capacity radius pred curData = (ty, v, u)"
      and "capacity \<le> 2 * radius"
  shows "(ty = 0 \<and> v = curData \<and> u = Some curData)
       \<or> (ty \<noteq> 0 \<and> \<bar>curData - v\<bar> \<le> precision \<and> u = None
           \<and> v = pred + 2 * real_of_int (ty - radius) * precision)"
proof (cases "precision \<noteq> 0 \<and> \<bar>curData - pred\<bar> / precision + 1 < real_of_int capacity")
  case False
  with assms(1) show ?thesis by (auto simp: quantize_def Let_def)
next
  case True
  define a where "a = \<bar>curData - pred\<bar> / precision + 1"
  define itv where "itv = (if curData - pred < 0 then - a else a)"
  define t where "t = c_trunc (itv / 2) + radius"
  define w where "w = pred + 2 * real_of_int (t - radius) * precision"
  have q: "quantize precision capacity radius pred curData
             = (if \<bar>curData - w\<bar> > precision then (0, curData, Some curData) else (t, w, None))"
    using True by (simp add: quantize_def Let_def itv_def t_def w_def a_def)
  show ?thesis
  proof (cases "\<bar>curData - w\<bar> > precision")
    case True
    with q assms(1) show ?thesis by auto
  next
    case False
    with q assms(1) have eq: "ty = t" "v = w" "u = None" by auto
    from False True have pos: "0 < precision" by linarith
    then have "0 \<le> \<bar>curData - pred\<bar> / precision" by simp
    then have a1: "1 \<le> a" by (simp add: a_def)
    have acap: "a < real_of_int capacity" using True by (simp add: a_def)
    have "- a \<le> itv" using a1 by (simp add: itv_def)
    with a1 acap assms(2) have lo: "- real_of_int radius < itv / 2" by linarith
    from a1 acap assms(2) have rpos: "0 < radius" by linarith
    from rpos lo have "- radius < c_trunc (itv / 2)" by (rule c_trunc_gt)
    then have "t \<noteq> 0" by (simp add: t_def)
    with False eq show ?thesis by (auto simp: w_def)
  qed
qed

lemma quantize_third:
  assumes "quantize precision capacity radius pred curData = (ty, v, u)" "capacity \<le> 2 * radius"
  shows "u = (if ty = 0 then Some curData else None)"
  using quantize_cases[OF assms] by auto


section \<open>Theorems: the coefficient quantizer\<close>











section \<open>Theorems: the sample quantizer\<close>

lemma stride_fold:
  "fold (\<lambda>k (p, s). (p + d, g p k s)) [0..<n] (p0, s)
     = (p0 + n * d, fold (\<lambda>k. g (p0 + k * d) k) [0..<n] s)"
  by (induction n) (simp_all add: add.assoc)

lemma fold_concat_map: "fold f (concat (map g xs)) = fold (\<lambda>x. fold f (g x)) xs"
  by (induction xs) simp_all

lemma walk_block_fold:
  "walk_block f s0 = fold (\<lambda>c. case c of (ii, jj, kk) \<Rightarrow> f (cell_of c) ii jj kk) block_coords s0"
proof -
  let ?n = block_size
  let ?P = pred_buffer_block_size
  define G where "G = (\<lambda>ii p jj s. fold (\<lambda>kk. f (p + kk) ii jj kk) [0..<?n] s)"
  define H where "H = (\<lambda>p ii s. fold (\<lambda>jj. G ii (p + jj * ?P) jj) [0..<?n] s)"
  have inner: "fold (\<lambda>kk (p, s). (p + 1, f p ii jj kk s)) [0..<?n] (p, s) = (p + ?n, G ii p jj s)"
    for ii jj p s
    using stride_fold[of 1 "\<lambda>p kk s. f p ii jj kk s" ?n p s] by (simp add: G_def)
  have mid: "fold (\<lambda>jj (p, s).
                 (case fold (\<lambda>kk (p, s). (p + 1, f p ii jj kk s)) [0..<?n] (p, s) of
                    (p, s) \<Rightarrow> (p + 1, s))) [0..<?n] (p, s)
      = (p + ?n * ?P, H p ii s)" for ii p s
  proof -
    have "fold (\<lambda>jj (p, s).
                 (case fold (\<lambda>kk (p, s). (p + 1, f p ii jj kk s)) [0..<?n] (p, s) of
                    (p, s) \<Rightarrow> (p + 1, s))) [0..<?n] (p, s)
          = fold (\<lambda>jj (p, s). (p + ?P, G ii p jj s)) [0..<?n] (p, s)"
      unfolding inner by (simp add: pred_buffer_block_size_def add.assoc)
    also have "\<dots> = (p + ?n * ?P, H p ii s)"
      using stride_fold[of ?P "G ii" ?n p s] by (simp add: H_def)
    finally show ?thesis .
  qed
  have "walk_block f s0 = snd (fold (\<lambda>ii (p, s). (p + (?n * ?P + ?P), H p ii s)) [0..<?n]
                                 (?P * ?P + ?P + 1, s0))"
    unfolding walk_block_def mid by (simp add: add.assoc)
  also have "\<dots> = fold (\<lambda>ii. H (?P * ?P + ?P + 1 + ii * (?n * ?P + ?P)) ii) [0..<?n] s0"
    using stride_fold[of "?n * ?P + ?P" H ?n "?P * ?P + ?P + 1" s0] by simp
  also have "\<dots> = fold (\<lambda>ii. fold (\<lambda>jj. fold (\<lambda>kk. f (cell (ii + 1) (jj + 1) (kk + 1)) ii jj kk)
                                  [0..<?n]) [0..<?n]) [0..<?n] s0"
  proof -
    have "?P * ?P + ?P + 1 + ii * (?n * ?P + ?P) + jj * ?P + kk = cell (ii + 1) (jj + 1) (kk + 1)"
      for ii jj kk
      by (simp add: cell_def strip_dim0_offset_def strip_dim1_offset_def pred_buffer_block_size_def
          block_size_def)
    then show ?thesis by (simp add: H_def G_def)
  qed
  also have "\<dots> = fold (\<lambda>c. case c of (ii, jj, kk) \<Rightarrow> f (cell_of c) ii jj kk) block_coords s0"
    unfolding block_coords_def
    by (simp add: fold_concat_map fold_map comp_def cell_of_def)
  finally show ?thesis .
qed

lemma block_coords_product:
  "block_coords = List.product [0..<block_size] (List.product [0..<block_size] [0..<block_size])"
  by (simp add: block_coords_def product_concat_map map_concat comp_def)

lemma length_block_coords: "length block_coords = 216"
  by (simp add: block_coords_product block_size_def)

lemma distinct_block_coords: "distinct block_coords"
  by (simp add: block_coords_product distinct_product)

lemma set_block_coords:
  "c \<in> set block_coords \<longleftrightarrow> fst c < 6 \<and> fst (snd c) < 6 \<and> snd (snd c) < 6"
  by (cases c) (auto simp: block_coords_product block_size_def)

lemma cell_of_lt: "c \<in> set block_coords \<Longrightarrow> cell_of c < 343"
  by (cases c) (auto simp: set_block_coords cell_of_def cell_def strip_dim0_offset_def
      strip_dim1_offset_def pred_buffer_block_size_def block_size_def)

lemma cell_of_inj: "inj_on cell_of (set block_coords)"
proof (rule inj_onI)
  fix c d assume c: "c \<in> set block_coords" and d: "d \<in> set block_coords"
    and eq: "cell_of c = cell_of d"
  obtain a b e where c': "c = (a, b, e)" by (cases c) auto
  obtain a' b' e' where d': "d = (a', b', e')" by (cases d) auto
  from c d have lt: "a < 6" "b < 6" "e < 6" "a' < 6" "b' < 6" "e' < 6"
    by (simp_all add: set_block_coords c' d')
  from eq have h: "49 * a + 7 * b + e = 49 * a' + 7 * b' + e'"
    by (simp add: c' d' cell_of_def cell_def strip_dim0_offset_def
      strip_dim1_offset_def pred_buffer_block_size_def block_size_def)
  with lt have "a = a'" by linarith
  with h lt have "b = b'" by linarith
  with h \<open>a = a'\<close> have "e = e'" by linarith
  with \<open>a = a'\<close> \<open>b = b'\<close> show "c = d" unfolding c' d' by simp
qed

lemma distinct_block_cells: "distinct (map cell_of block_coords)"
  by (simp add: distinct_map distinct_block_coords cell_of_inj)

lemma escaped_values_Cons:
  "escaped_values (v # vs) (t # ts) = (if t = 0 then [v] else []) @ escaped_values vs ts"
  by (simp add: escaped_values_def)

lemma escaped_values_Nil: "escaped_values [] [] = []"
  by (simp add: escaped_values_def)


lemma sz_cell_step:
  assumes cap: "intvCapacity \<le> 2 * intvRadius" and p: "p < length buf"
  obtains ty v where
    "quant_sz_cell use_mean realPrecision mean intvCapacity intvRadius p ii jj kk (buf, tys0, unp0)
       = (buf[p := v], tys0 @ [ty], unp0 @ (if ty = 0 then [buf ! p] else []))"
    "(ty = 0 \<and> v = buf ! p) \<or> (ty \<noteq> 0 \<and> \<bar>v - buf ! p\<bar> \<le> realPrecision)"
proof (cases "use_mean \<and> \<bar>buf ! p - mean\<bar> \<le> realPrecision")
  case True
  have "quant_sz_cell use_mean realPrecision mean intvCapacity intvRadius p ii jj kk (buf, tys0, unp0)
       = (buf[p := mean], tys0 @ [1], unp0 @ (if (1::int) = 0 then [buf ! p] else []))"
    using True by (simp add: quant_sz_cell_def)
  moreover have "((1::int) = 0 \<and> mean = buf ! p) \<or> ((1::int) \<noteq> 0 \<and> \<bar>mean - buf ! p\<bar> \<le> realPrecision)"
    using True by (simp add: abs_minus_commute)
  ultimately show ?thesis by (rule that)
next
  case False
  obtain ty v u where q: "quantize realPrecision (intvCapacity - 2) intvRadius
       (pred_sz_at buf p) (buf ! p) = (ty, v, u)" by (metis prod_cases3)
  have cap': "intvCapacity - 2 \<le> 2 * intvRadius" using cap by simp
  have u: "u = (if ty = 0 then Some (buf ! p) else None)"
    by (rule quantize_third[OF q cap'])
  have "quant_sz_cell use_mean realPrecision mean intvCapacity intvRadius p ii jj kk (buf, tys0, unp0)
       = (buf[p := v], tys0 @ [ty], unp0 @ (if ty = 0 then [buf ! p] else []))"
    using False q u by (auto simp: quant_sz_cell_def Let_def)
  moreover have "(ty = 0 \<and> v = buf ! p) \<or> (ty \<noteq> 0 \<and> \<bar>v - buf ! p\<bar> \<le> realPrecision)"
    using quantize_cases[OF q cap'] by (auto simp: abs_minus_commute)
  ultimately show ?thesis by (rule that)
qed

lemma sz_fold:
  assumes cap: "intvCapacity \<le> 2 * intvRadius"
      and d: "distinct (map cell_of cs)"
      and lt: "\<forall>c\<in>set cs. cell_of c < length buf"
  shows "\<exists>buf' tys.
           fold (\<lambda>c. case c of (ii, jj, kk) \<Rightarrow>
                   quant_sz_cell use_mean realPrecision mean intvCapacity intvRadius
                     (cell_of c) ii jj kk) cs (buf, tys0, unp0)
             = (buf', tys0 @ tys, unp0 @ escaped_values (map (\<lambda>c. buf ! cell_of c) cs) tys)
           \<and> length tys = length cs \<and> length buf' = length buf
           \<and> (\<forall>q. q \<notin> cell_of ` set cs \<longrightarrow> buf' ! q = buf ! q)
           \<and> list_all2 (cell_ok realPrecision buf buf') cs tys"
  using d lt
proof (induction cs arbitrary: buf tys0 unp0)
  case Nil
  show ?case by (simp add: escaped_values_Nil)
next
  case (Cons c cs)
  obtain ii jj kk where c: "c = (ii, jj, kk)" by (cases c) auto
  let ?p = "cell_of c"
  have p: "?p < length buf" using Cons.prems by simp
  obtain ty v where
    step: "quant_sz_cell use_mean realPrecision mean intvCapacity intvRadius ?p ii jj kk (buf, tys0, unp0)
       = (buf[?p := v], tys0 @ [ty], unp0 @ (if ty = 0 then [buf ! ?p] else []))"
    and ok: "(ty = 0 \<and> v = buf ! ?p) \<or> (ty \<noteq> 0 \<and> \<bar>v - buf ! ?p\<bar> \<le> realPrecision)"
    by (rule sz_cell_step[OF cap p])
  let ?buf1 = "buf[?p := v]"
  have d': "distinct (map cell_of cs)" and notin: "?p \<notin> cell_of ` set cs"
    using Cons.prems by auto
  have lt': "\<forall>c\<in>set cs. cell_of c < length ?buf1" using Cons.prems by simp
  from Cons.IH[OF d' lt', of "tys0 @ [ty]" "unp0 @ (if ty = 0 then [buf ! ?p] else [])"]
  obtain buf' tys where
    f: "fold (\<lambda>c. case c of (ii, jj, kk) \<Rightarrow>
                   quant_sz_cell use_mean realPrecision mean intvCapacity intvRadius
                     (cell_of c) ii jj kk) cs
             (?buf1, tys0 @ [ty], unp0 @ (if ty = 0 then [buf ! ?p] else []))
          = (buf', (tys0 @ [ty]) @ tys,
             (unp0 @ (if ty = 0 then [buf ! ?p] else []))
               @ escaped_values (map (\<lambda>c. ?buf1 ! cell_of c) cs) tys)"
    and len: "length tys = length cs" "length buf' = length ?buf1"
    and frame: "\<forall>q. q \<notin> cell_of ` set cs \<longrightarrow> buf' ! q = ?buf1 ! q"
    and all: "list_all2 (cell_ok realPrecision ?buf1 buf') cs tys"
    by blast
  have same: "\<And>d. d \<in> set cs \<Longrightarrow> ?buf1 ! cell_of d = buf ! cell_of d"
    using notin by (metis image_eqI nth_list_update_neq)
  have m: "map (\<lambda>c. ?buf1 ! cell_of c) cs = map (\<lambda>c. buf ! cell_of c) cs"
    using same by simp
  have all': "list_all2 (cell_ok realPrecision buf buf') cs tys"
    using all same by (auto simp: list_all2_conv_all_nth cell_ok_def)
  have bp: "buf' ! ?p = v" using frame notin p by simp
  have okc: "cell_ok realPrecision buf buf' c ty" using ok bp by (simp add: cell_ok_def)
  have fr: "\<forall>q. q \<notin> cell_of ` set (c # cs) \<longrightarrow> buf' ! q = buf ! q"
    using frame by auto
  have "fold (\<lambda>c. case c of (ii, jj, kk) \<Rightarrow>
                   quant_sz_cell use_mean realPrecision mean intvCapacity intvRadius
                     (cell_of c) ii jj kk) (c # cs) (buf, tys0, unp0)
        = (buf', tys0 @ (ty # tys),
           unp0 @ escaped_values (map (\<lambda>c. buf ! cell_of c) (c # cs)) (ty # tys))"
    using f[unfolded m] step by (simp add: c escaped_values_Cons)
  moreover have "length (ty # tys) = length (c # cs)" using len by simp
  moreover have "length buf' = length buf" using len by simp
  moreover have "list_all2 (cell_ok realPrecision buf buf') (c # cs) (ty # tys)"
    using okc all' by simp
  ultimately show ?case using fr by blast
qed



section \<open>Theorems: staging a block\<close>

lemma fold_opt_append:
  "fold_opt f (xs @ ys) s = (case fold_opt f xs s of None \<Rightarrow> None | Some s' \<Rightarrow> fold_opt f ys s')"
  by (induction xs arbitrary: s) (auto split: option.splits)

lemma loop_body_fold:
  assumes f: "\<And>m b p q. \<exists>z. f m (b, p, q) = (if ok m q then Some (W m p q b, p + w, z) else None)"
  shows "fold_opt (loop_body f e lm d) [0..<n] (b, p, q)
         = (if \<forall>m<n. ok m (q + min m lm * d)
            then Some (fold (\<lambda>m. W m (p + m * (w + e)) (q + min m lm * d)) [0..<n] b,
                       p + n * (w + e), q + min n lm * d)
            else None)"
proof (induction n)
  case 0
  show ?case by simp
next
  case (Suc n)
  show ?case
  proof (cases "\<forall>m<n. ok m (q + min m lm * d)")
    case False
    then have ns: "\<not> (\<forall>m<Suc n. ok m (q + min m lm * d))" using less_Suc_eq by blast
    have "fold_opt (loop_body f e lm d) [0..<n] (b, p, q) = None"
      using Suc False by (simp only: if_False)
    then have "fold_opt (loop_body f e lm d) [0..<Suc n] (b, p, q) = None"
      by (simp add: fold_opt_append)
    with ns show ?thesis by (simp only: if_False)
  next
    case True
    let ?b = "fold (\<lambda>m. W m (p + m * (w + e)) (q + min m lm * d)) [0..<n] b"
    let ?p = "p + n * (w + e)"
    let ?q = "q + min n lm * d"
    have pre: "fold_opt (loop_body f e lm d) [0..<n] (b, p, q) = Some (?b, ?p, ?q)"
      using Suc True by simp
    obtain z where fz: "f n (?b, ?p, ?q) = (if ok n ?q then Some (W n ?p ?q ?b, ?p + w, z) else None)"
      using f by blast
    have q': "(if n < lm then ?q + d else ?q) = q + min (Suc n) lm * d"
      by (auto simp: min_def)
    have all: "(\<forall>m<Suc n. ok m (q + min m lm * d)) \<longleftrightarrow> ok n ?q"
      using True less_Suc_eq by auto
    have step: "fold_opt (loop_body f e lm d) [0..<Suc n] (b, p, q)
                = loop_body f e lm d n (?b, ?p, ?q)"
      using pre by (simp add: fold_opt_append split: option.splits)
    show ?thesis
    proof (cases "ok n ?q")
      case False
      have "loop_body f e lm d n (?b, ?p, ?q) = None"
        using fz False by (simp add: loop_body_def)
      with step all False show ?thesis by simp
    next
      case okn: True
      have "loop_body f e lm d n (?b, ?p, ?q)
            = Some (W n ?p ?q ?b, ?p + w + e, q + min (Suc n) lm * d)"
        using fz okn q' by (simp add: loop_body_def)
      moreover have "?p + w + e = p + Suc n * (w + e)" by simp
      moreover have "fold (\<lambda>m. W m (p + m * (w + e)) (q + min m lm * d)) [0..<Suc n] b
                     = W n ?p ?q ?b" by simp
      ultimately show ?thesis using step all okn by (simp only: if_True)
    qed
  qed
qed

lemma copy_cell_loop:
  "copy_cell off ori r3 k
     = loop_body (\<lambda>m (b, p, q). if q < length ori then Some (b[p := ori ! q], p, q) else None)
         1 (r3 - off - k * block_size) 1"
  by (intro ext) (auto simp: copy_cell_def loop_body_def read_ori_def)

lemma copy_row_loop:
  "copy_row off halo ori r2 r3 j k
     = loop_body (\<lambda>jj s. fold_opt (copy_cell off ori r3 k) [0..<block_size] s)
         (if halo then 1 else 0) (r2 - off - j * block_size) r3"
  by (intro ext) (auto simp: copy_row_def loop_body_def split: option.splits)

lemma copy_plane_loop:
  "copy_plane off halo ori r1 r2 r3 i j k
     = loop_body (\<lambda>ii s. fold_opt (copy_row off halo ori r2 r3 j k) [0..<block_size] s)
         (if halo then pred_buffer_block_size else 0) (r1 - off - i * block_size) (r2 * r3)"
  by (intro ext) (auto simp: copy_plane_def loop_body_def split: option.splits)

lemma cells_fold:
  "fold_opt (copy_cell off ori r3 k) [0..<n] (b, p, q)
     = (if \<forall>kk<n. q + adv off r3 k kk < length ori
        then Some (fold (\<lambda>kk b. b[p + kk := ori ! (q + adv off r3 k kk)]) [0..<n] b,
                   p + n, q + adv off r3 k n)
        else None)"
  unfolding copy_cell_loop adv_def
  using loop_body_fold[where f = "\<lambda>m (b, p, q). if q < length ori then Some (b[p := ori ! q], p, q) else None"
      and ok = "\<lambda>m q. q < length ori" and W = "\<lambda>m p q b. b[p := ori ! q]" and w = 0 and e = 1
      and d = 1 and lm = "r3 - off - k * block_size" and n = n and b = b and p = p and q = q]
  by simp

lemma rows_fold:
  "fold_opt (copy_row off halo ori r2 r3 j k) [0..<n] (b, p, q)
     = (if \<forall>jj<n. \<forall>kk<block_size. q + adv off r2 j jj * r3 + adv off r3 k kk < length ori
        then Some (fold (\<lambda>jj. fold (\<lambda>kk b. b[p + jj * (block_size + (if halo then 1 else 0)) + kk
                                              := ori ! (q + adv off r2 j jj * r3 + adv off r3 k kk)])
                                    [0..<block_size]) [0..<n] b,
                   p + n * (block_size + (if halo then 1 else 0)), q + adv off r2 j n * r3)
        else None)"
  unfolding copy_row_loop adv_def[of off r2]
  using loop_body_fold[where f = "\<lambda>jj s. fold_opt (copy_cell off ori r3 k) [0..<block_size] s"
      and ok = "\<lambda>m q. \<forall>kk<block_size. q + adv off r3 k kk < length ori"
      and W = "\<lambda>m p q b. fold (\<lambda>kk b. b[p + kk := ori ! (q + adv off r3 k kk)]) [0..<block_size] b"
      and w = block_size and e = "if halo then 1 else 0"
      and d = r3 and lm = "r2 - off - j * block_size" and n = n and b = b and p = p and q = q]
  by (simp add: cells_fold)

lemma planes_fold:
  "fold_opt (copy_plane off halo ori r1 r2 r3 i j k) [0..<n] (b, p, q)
     = (if \<forall>ii<n. \<forall>jj<block_size. \<forall>kk<block_size.
             q + adv off r1 i ii * (r2 * r3) + adv off r2 j jj * r3 + adv off r3 k kk < length ori
        then Some (fold (\<lambda>ii. fold (\<lambda>jj. fold (\<lambda>kk b.
                     b[p + ii * (block_size * (block_size + (if halo then 1 else 0))
                                 + (if halo then pred_buffer_block_size else 0))
                         + jj * (block_size + (if halo then 1 else 0)) + kk
                       := ori ! (q + adv off r1 i ii * (r2 * r3) + adv off r2 j jj * r3
                                 + adv off r3 k kk)])
                     [0..<block_size]) [0..<block_size]) [0..<n] b,
                   p + n * (block_size * (block_size + (if halo then 1 else 0))
                            + (if halo then pred_buffer_block_size else 0)),
                   q + adv off r1 i n * (r2 * r3))
        else None)"
  unfolding copy_plane_loop adv_def[of off r1]
  using loop_body_fold[where f = "\<lambda>ii s. fold_opt (copy_row off halo ori r2 r3 j k) [0..<block_size] s"
      and ok = "\<lambda>m q. \<forall>jj<block_size. \<forall>kk<block_size.
                   q + adv off r2 j jj * r3 + adv off r3 k kk < length ori"
      and W = "\<lambda>m p q b. fold (\<lambda>jj. fold (\<lambda>kk b. b[p + jj * (block_size + (if halo then 1 else 0)) + kk
                                              := ori ! (q + adv off r2 j jj * r3 + adv off r3 k kk)])
                                    [0..<block_size]) [0..<block_size] b"
      and w = "block_size * (block_size + (if halo then 1 else 0))"
      and e = "if halo then pred_buffer_block_size else 0"
      and d = "r2 * r3" and lm = "r1 - off - i * block_size" and n = n and b = b and p = p and q = q]
  by (simp add: rows_fold)

lemma all_block_coords:
  "(\<forall>ii<block_size. \<forall>jj<block_size. \<forall>kk<block_size. Q (ii, jj, kk))
     \<longleftrightarrow> (\<forall>c\<in>set block_coords. Q c)"
  by (auto simp: set_block_coords block_size_def)

lemma stage_block_eq:
  "stage_block off halo ori r1 r2 r3 i j k buf
     = (if \<forall>c\<in>set block_coords. src_index off r1 r2 r3 i j k c < length ori
        then Some (fold (\<lambda>c b. b[dst_index halo c := ori ! src_index off r1 r2 r3 i j k c])
                     block_coords buf)
        else None)"
proof -
  have f: "fold (\<lambda>c b. b[dst_index halo c := ori ! src_index off r1 r2 r3 i j k c]) block_coords buf
         = fold (\<lambda>ii. fold (\<lambda>jj. fold (\<lambda>kk b.
              b[dst_index halo (ii, jj, kk) := ori ! src_index off r1 r2 r3 i j k (ii, jj, kk)])
              [0..<block_size]) [0..<block_size]) [0..<block_size] buf"
    unfolding block_coords_def by (simp add: fold_concat_map fold_map comp_def)
  show ?thesis
    unfolding stage_block_def Let_def planes_fold f
      all_block_coords[where Q = "\<lambda>c. src_index off r1 r2 r3 i j k c < length ori", symmetric]
    by (cases halo)
       (simp_all add: dst_index_def src_index_def cell_def strip_dim0_offset_def
          strip_dim1_offset_def pred_buffer_block_size_def block_size_def algebra_simps)
qed

lemma length_fold_update: "length (fold (\<lambda>c b. b[d c := v c]) cs b) = length b"
  by (induction cs arbitrary: b) simp_all

lemma nth_fold_update_other:
  "q \<notin> d ` set cs \<Longrightarrow> fold (\<lambda>c b. b[d c := v c]) cs b ! q = b ! q"
  by (induction cs arbitrary: b) auto

lemma nth_fold_update:
  assumes "distinct (map d cs)" "c \<in> set cs" "d c < length b"
  shows "fold (\<lambda>c b. b[d c := v c]) cs b ! d c = v c"
  using assms
proof (induction cs arbitrary: b)
  case Nil
  then show ?case by simp
next
  case (Cons a cs)
  show ?case
  proof (cases "c \<in> set cs")
    case True
    then show ?thesis using Cons by simp
  next
    case False
    then have ca: "c = a" using Cons.prems by simp
    have "d a \<notin> d ` set cs" using Cons.prems by simp
    then show ?thesis using ca Cons.prems by (simp add: nth_fold_update_other)
  qed
qed

lemma adv_clamp:
  assumes "axis_ok off r b" "n < block_size"
  shows "b * block_size + adv off r b n = min (b * block_size + n) (r - 1)"
  using assms unfolding axis_ok_def adv_def block_size_def by auto

lemma num_blocks_of_gt: "0 < r \<Longrightarrow> b < num_blocks_of r \<longleftrightarrow> b * block_size < r"
  unfolding num_blocks_of_def block_size_def by (auto simp: less_Suc_eq_le)

lemma index_lt:
  fixes a b n m :: nat
  assumes "a < n" "b < m"
  shows "a * m + b < n * m"
proof -
  have "a * m + b < a * m + m" using assms by simp
  also have "\<dots> = (a + 1) * m" by simp
  also have "\<dots> \<le> n * m" using assms by (intro mult_le_mono1) simp
  finally show ?thesis .
qed

lemma volume_index_lt:
  fixes x y z r1 r2 r3 :: nat
  assumes "x < r1" "y < r2" "z < r3"
  shows "x * (r2 * r3) + y * r3 + z < r1 * r2 * r3"
proof -
  have "y * r3 + z < r2 * r3" by (rule index_lt[OF assms(2,3)])
  from index_lt[OF assms(1) this] show ?thesis by (simp add: add.assoc mult.assoc)
qed

lemma src_index_clamped:
  assumes "axis_ok off r1 i" "axis_ok off r2 j" "axis_ok off r3 k" "c \<in> set block_coords"
  shows "src_index off r1 r2 r3 i j k c
         = min (i * block_size + fst c) (r1 - 1) * (r2 * r3)
           + min (j * block_size + fst (snd c)) (r2 - 1) * r3
           + min (k * block_size + snd (snd c)) (r3 - 1)"
proof -
  obtain ii jj kk where c: "c = (ii, jj, kk)" by (cases c) auto
  from assms(4) have lt: "ii < block_size" "jj < block_size" "kk < block_size"
    by (simp_all add: c set_block_coords block_size_def)
  have "src_index off r1 r2 r3 i j k c
        = (i * block_size + adv off r1 i ii) * (r2 * r3)
          + (j * block_size + adv off r2 j jj) * r3 + (k * block_size + adv off r3 k kk)"
    by (simp add: src_index_def c algebra_simps)
  then show ?thesis
    unfolding adv_clamp[OF assms(1) lt(1)] adv_clamp[OF assms(2) lt(2)]
      adv_clamp[OF assms(3) lt(3)] by (simp add: c)
qed

lemma src_index_in_range:
  assumes "axis_ok off r1 i" "axis_ok off r2 j" "axis_ok off r3 k" "c \<in> set block_coords"
      and "length ori = r1 * r2 * r3"
  shows "src_index off r1 r2 r3 i j k c < length ori"
proof -
  have r: "0 < r1" "0 < r2" "0 < r3" using assms(1-3) by (auto simp: axis_ok_def)
  have "min (i * block_size + fst c) (r1 - 1) < r1" "min (j * block_size + fst (snd c)) (r2 - 1) < r2"
    "min (k * block_size + snd (snd c)) (r3 - 1) < r3" using r by auto
  from volume_index_lt[OF this] show ?thesis
    unfolding src_index_clamped[OF assms(1-4)] assms(5) .
qed

lemma dst_index_halo: "dst_index True c = cell_of c"
  by (cases c) (simp add: dst_index_def cell_of_def)

lemma dst_dense_inj: "inj_on (dst_index False) (set block_coords)"
proof (rule inj_onI)
  fix c d assume c: "c \<in> set block_coords" and d: "d \<in> set block_coords"
    and eq: "dst_index False c = dst_index False d"
  obtain a b e where c': "c = (a, b, e)" by (cases c) auto
  obtain a' b' e' where d': "d = (a', b', e')" by (cases d) auto
  from c d have lt: "a < 6" "b < 6" "e < 6" "a' < 6" "b' < 6" "e' < 6"
    by (simp_all add: set_block_coords c' d')
  from eq have h: "36 * a + 6 * b + e = 36 * a' + 6 * b' + e'"
    by (simp add: c' d' dst_index_def block_size_def)
  with lt have "a = a'" by linarith
  with h lt have "b = b'" by linarith
  with h \<open>a = a'\<close> have "e = e'" by linarith
  with \<open>a = a'\<close> \<open>b = b'\<close> show "c = d" unfolding c' d' by simp
qed

lemma distinct_dst: "distinct (map (dst_index halo) block_coords)"
proof (cases halo)
  case True
  then show ?thesis using distinct_block_cells by (simp add: dst_index_halo[abs_def])
next
  case False
  then show ?thesis by (simp add: distinct_map distinct_block_coords dst_dense_inj)
qed

lemma dst_index_lt: "c \<in> set block_coords \<Longrightarrow> dst_index halo c < 343"
  by (cases c) (auto simp: set_block_coords dst_index_def cell_def strip_dim0_offset_def
      strip_dim1_offset_def pred_buffer_block_size_def block_size_def)

text \<open>
  Where the guard has the \<open>+ 1\<close> (the copy before the fit and the two copies of mean
  mode), for every block of the volume: the copy reads inside the array, and every
  staged cell holds the sample at its coordinates clamped to the last valid index of each
  axis. The same holds of the copies without mean mode for the blocks that lie inside
  the volume.
\<close>

lemma stage_block_clamped:
  assumes ax: "axis_ok off r1 i" "axis_ok off r2 j" "axis_ok off r3 k"
      and len: "length ori = r1 * r2 * r3" and lb: "length buf = 343"
  shows "\<exists>buf'. stage_block off halo ori r1 r2 r3 i j k buf = Some buf'
           \<and> length buf' = 343
           \<and> (\<forall>c\<in>set block_coords.
                 buf' ! dst_index halo c
                   = clamped_sample ori r1 r2 r3 (i * block_size + fst c)
                       (j * block_size + fst (snd c)) (k * block_size + snd (snd c)))
           \<and> (\<forall>q. q \<notin> dst_index halo ` set block_coords \<longrightarrow> buf' ! q = buf ! q)"
proof -
  let ?v = "\<lambda>c. ori ! src_index off r1 r2 r3 i j k c"
  let ?b = "fold (\<lambda>c b. b[dst_index halo c := ?v c]) block_coords buf"
  have "\<forall>c\<in>set block_coords. src_index off r1 r2 r3 i j k c < length ori"
    using src_index_in_range[OF ax _ len] by blast
  then have s: "stage_block off halo ori r1 r2 r3 i j k buf = Some ?b"
    by (simp add: stage_block_eq)
  have l: "length ?b = 343" by (simp add: length_fold_update lb)
  have v: "?b ! dst_index halo c
           = clamped_sample ori r1 r2 r3 (i * block_size + fst c)
                       (j * block_size + fst (snd c)) (k * block_size + snd (snd c))"
    if c: "c \<in> set block_coords" for c
  proof -
    have "dst_index halo c < length buf" using dst_index_lt[OF c] lb by simp
    from nth_fold_update[OF distinct_dst c this, of ?v]
    show ?thesis by (simp add: clamped_sample_def src_index_clamped[OF ax c])
  qed
  have fr: "\<forall>q. q \<notin> dst_index halo ` set block_coords \<longrightarrow> ?b ! q = buf ! q"
    by (simp add: nth_fold_update_other)
  show ?thesis using s l v fr by blast
qed

text \<open>
  The copies without mean mode (\<open>off = 0\<close>) clamp at \<open>r\<close> instead of \<open>r - 1\<close>: where
  they return, the cell past the last valid index holds the element after the
  end of its row.
\<close>

lemma adv_late:
  assumes "b * block_size \<le> r"
  shows "b * block_size + adv 0 r b n = min (b * block_size + n) r"
  using assms unfolding adv_def by auto

lemma stage_nonmean_clamps_late:
  assumes st: "stage_block 0 halo ori r1 r2 r3 i j k buf = Some buf'"
      and c: "c \<in> set block_coords" and lb: "length buf = 343"
      and b: "i * block_size \<le> r1" "j * block_size \<le> r2" "k * block_size \<le> r3"
  shows "buf' ! dst_index halo c
         = ori ! (min (i * block_size + fst c) r1 * (r2 * r3)
                  + min (j * block_size + fst (snd c)) r2 * r3
                  + min (k * block_size + snd (snd c)) r3)"
proof -
  let ?v = "\<lambda>c. ori ! src_index 0 r1 r2 r3 i j k c"
  have s: "buf' = fold (\<lambda>c b. b[dst_index halo c := ?v c]) block_coords buf"
    using st by (simp add: stage_block_eq split: if_splits)
  have "dst_index halo c < length buf" using dst_index_lt[OF c] lb by simp
  from nth_fold_update[OF distinct_dst c this, of ?v]
  have v: "buf' ! dst_index halo c = ?v c" unfolding s .
  obtain ii jj kk where c': "c = (ii, jj, kk)" by (cases c) auto
  have "src_index 0 r1 r2 r3 i j k c
        = (i * block_size + adv 0 r1 i ii) * (r2 * r3)
          + (j * block_size + adv 0 r2 j jj) * r3 + (k * block_size + adv 0 r3 k kk)"
    by (simp add: src_index_def c' algebra_simps)
  then show ?thesis
    unfolding v adv_late[OF b(1)] adv_late[OF b(2)] adv_late[OF b(3)] by (simp add: c')
qed

text \<open>
  C2: the claim holds of the copies whose guard is \<^verbatim>\<open>k * block_size + kk + 1 < r3\<close>
  (\<open>stage_block_clamped\<close>) and fails for the selector copy and the quantizer copy without
  mean mode, whose guard is \<^verbatim>\<open>k * block_size + kk < r3\<close>. For a volume of one sample
  the copy reads \<^verbatim>\<open>oriData[1]\<close>, past the end of the array, for the cell
  \<open>(0, 0, 1)\<close>; the copy with the \<open>+ 1\<close> returns.
\<close>

theorem stage_nonmean_reads_past_end:
  "stage_block 0 True [v] 1 1 1 0 0 0 pred_buffer = None
   \<and> (\<exists>b. stage_block 1 True [v] 1 1 1 0 0 0 pred_buffer = Some b)"
proof -
  have m: "(0, 0, 1) \<in> set block_coords" by (simp add: set_block_coords)
  have "src_index 0 1 1 1 0 0 0 (0, 0, 1) = 1"
    by (simp add: src_index_def adv_def block_size_def)
  then have "\<not> (\<forall>c\<in>set block_coords. src_index 0 1 1 1 0 0 0 c < length [v])"
    using m by force
  then have a: "stage_block 0 True [v] 1 1 1 0 0 0 pred_buffer = None"
    by (simp only: stage_block_eq if_False)
  have "\<forall>c\<in>set block_coords. src_index 1 1 1 1 0 0 0 c < length [v]"
    by (auto simp: src_index_def adv_def block_size_def)
  then have "\<exists>b. stage_block 1 True [v] 1 1 1 0 0 0 pred_buffer = Some b"
    by (simp add: stage_block_eq)
  with a show ?thesis by blast
qed

section \<open>Theorems: quantization of one value, the two outcomes\<close>

lemma c_trunc_minus: "c_trunc (- x) = - c_trunc x"
proof -
  consider "x = 0" | "0 < x" | "x < 0" by linarith
  then show ?thesis
  proof cases
    case 1
    then show ?thesis by (simp add: c_trunc_def)
  next
    case 2
    then have "c_trunc (- x) = \<lceil>- x\<rceil>" "c_trunc x = \<lfloor>x\<rfloor>" by (simp_all add: c_trunc_def)
    then show ?thesis by (simp add: ceiling_minus)
  next
    case 3
    then have "c_trunc (- x) = \<lfloor>- x\<rfloor>" "c_trunc x = \<lceil>x\<rceil>" by (simp_all add: c_trunc_def)
    then show ?thesis by (simp add: floor_minus)
  qed
qed

lemma quantize_escape:
  assumes "\<not> (precision \<noteq> 0 \<and> \<bar>curData - pred\<bar> / precision + 1 < real_of_int capacity)"
  shows "quantize precision capacity radius pred curData = (0, curData, Some curData)"
  using assms by (auto simp: quantize_def Let_def)

lemma quantize_accept:
  assumes pos: "0 < precision" and cap: "capacity \<le> 2 * radius"
      and lt: "\<bar>curData - pred\<bar> / precision + 1 < real_of_int capacity"
  shows "\<exists>ty v. quantize precision capacity radius pred curData = (ty, v, None)
               \<and> ty \<noteq> 0 \<and> \<bar>curData - v\<bar> \<le> precision"
proof -
  define q where "q = \<bar>curData - pred\<bar> / precision"
  define n where "n = c_trunc ((q + 1) / 2)"
  define itv where "itv = (if curData - pred < 0 then - (q + 1) else q + 1)"
  define t where "t = c_trunc (itv / 2) + radius"
  define w where "w = pred + 2 * real_of_int (t - radius) * precision"
  have q0: "0 \<le> q" using pos by (simp add: q_def)
  have half: "\<bar>q - 2 * real_of_int n\<bar> \<le> 1" unfolding n_def by (rule c_trunc_half[OF q0])
  have qp: "q * precision = \<bar>curData - pred\<bar>" using pos by (simp add: q_def)
  have "itv / 2 = (if curData - pred < 0 then - ((q + 1) / 2) else (q + 1) / 2)"
    unfolding itv_def by argo
  then have "c_trunc (itv / 2) = (if curData - pred < 0 then - n else n)"
    unfolding n_def using c_trunc_minus[of "(q + 1) / 2"] by presburger
  then have tn: "real_of_int (t - radius) = (if curData - pred < 0 then - real_of_int n else real_of_int n)"
    by (simp add: t_def)
  have dw: "curData - w = (curData - pred) - 2 * real_of_int (t - radius) * precision"
    by (simp add: w_def)
  have "\<bar>curData - w\<bar> = \<bar>q - 2 * real_of_int n\<bar> * precision"
  proof (cases "curData - pred < 0")
    case True
    then have "curData - pred = - (q * precision)" using qp by simp
    then have "curData - w = - (q * precision) + 2 * real_of_int n * precision"
      unfolding dw tn using True by simp
    also have "\<dots> = - (q - 2 * real_of_int n) * precision" by (simp add: algebra_simps)
    finally show ?thesis using pos by (simp only: abs_mult abs_minus abs_of_pos)
  next
    case False
    then have "curData - pred = q * precision" using qp by simp
    then have "curData - w = q * precision - 2 * real_of_int n * precision"
      unfolding dw tn using False by simp
    also have "\<dots> = (q - 2 * real_of_int n) * precision" by (simp add: algebra_simps)
    finally show ?thesis using pos by (simp only: abs_mult abs_of_pos)
  qed
  also have "\<dots> \<le> 1 * precision" using half pos by (intro mult_right_mono) simp_all
  finally have g: "\<bar>curData - w\<bar> \<le> precision" by simp
  have "quantize precision capacity radius pred curData
          = (if \<bar>curData - w\<bar> > precision then (0, curData, Some curData) else (t, w, None))"
    using pos lt by (simp add: quantize_def Let_def q_def itv_def t_def w_def)
  with g have "quantize precision capacity radius pred curData = (t, w, None)"
    by (simp only: not_le[symmetric] if_False simp_thms)
  moreover from quantize_cases[OF this cap] have "t \<noteq> 0" by simp
  ultimately show ?thesis using g by blast
qed

section \<open>Theorems: the view of a staged buffer\<close>

lemma cell_lt: "i \<le> 6 \<Longrightarrow> j \<le> 6 \<Longrightarrow> k \<le> 6 \<Longrightarrow> cell i j k < 343"
  by (simp add: cell_def strip_dim0_offset_def strip_dim1_offset_def pred_buffer_block_size_def
      block_size_def)

lemma cell_inj:
  assumes "j \<le> 6" "k \<le> 6" "j' \<le> 6" "k' \<le> 6" "cell i j k = cell i' j' k'"
  shows "i = i' \<and> j = j' \<and> k = k'"
proof -
  from assms(5) have h: "49 * i + 7 * j + k = 49 * i' + 7 * j' + k'"
    by (simp add: cell_def strip_dim0_offset_def strip_dim1_offset_def pred_buffer_block_size_def
      block_size_def)
  with assms(1-4) have "i = i'" by linarith
  with h assms(1-4) have "j = j'" by linarith
  with h \<open>i = i'\<close> have "k = k'" by linarith
  with \<open>i = i'\<close> \<open>j = j'\<close> show ?thesis by simp
qed

lemma staged_nth:
  assumes s: "staged \<phi> b" and le: "i \<le> 6" "j \<le> 6" "k \<le> 6"
  shows "b ! cell i j k = (if 0 < i \<and> 0 < j \<and> 0 < k then \<phi> (i - 1, j - 1, k - 1) else 0)"
proof (cases "0 < i \<and> 0 < j \<and> 0 < k")
  case True
  then have "i - 1 < 6" "j - 1 < 6" "k - 1 < 6" using le by linarith+
  then have m: "(i - 1, j - 1, k - 1) \<in> set block_coords" by (simp add: set_block_coords)
  have "cell_of (i - 1, j - 1, k - 1) = cell i j k" using True by (simp add: cell_of_def)
  with s m True show ?thesis unfolding staged_def by metis
next
  case False
  have "cell i j k \<notin> cell_of ` set block_coords"
  proof
    assume "cell i j k \<in> cell_of ` set block_coords"
    then obtain c where c: "c \<in> set block_coords" "cell i j k = cell_of c" by blast
    obtain a d e where c': "c = (a, d, e)" by (cases c) auto
    from c(1) have "d < 6" "e < 6" by (simp_all add: set_block_coords c')
    then have "i = a + 1 \<and> j = d + 1 \<and> k = e + 1"
      using cell_inj[of j k "d + 1" "e + 1" i "a + 1"] le c(2) by (simp add: c' cell_of_def)
    with False show False by simp
  qed
  with s cell_lt[OF le] have "b ! cell i j k = 0" unfolding staged_def by blast
  with False show ?thesis by auto
qed

lemma pred_sz_at_cell:
  assumes "0 < i" "0 < j" "0 < k"
  shows "pred_sz_at b (cell i j k)
         = b ! cell i j (k - 1) + b ! cell i (j - 1) k + b ! cell (i - 1) j k
           - b ! cell i (j - 1) (k - 1) - b ! cell (i - 1) j (k - 1)
           - b ! cell (i - 1) (j - 1) k + b ! cell (i - 1) (j - 1) (k - 1)"
proof -
  obtain i' j' k' where e: "i = Suc i'" "j = Suc j'" "k = Suc k'"
    using assms by (metis Suc_pred)
  show ?thesis
    unfolding e pred_sz_at_def cell_def strip_dim0_offset_def strip_dim1_offset_def
      pred_buffer_block_size_def block_size_def
    by (simp add: algebra_simps)
qed

lemma stage_halo_staged:
  assumes ax: "axis_ok off r1 i" "axis_ok off r2 j" "axis_ok off r3 k"
      and len: "length ori = r1 * r2 * r3"
      and lb: "length buf = 343"
      and halo: "\<forall>q<343. q \<notin> cell_of ` set block_coords \<longrightarrow> buf ! q = 0"
  shows "\<exists>b. stage_block off True ori r1 r2 r3 i j k buf = Some b
             \<and> staged (\<lambda>c. clamped_sample ori r1 r2 r3 (i * block_size + fst c)
                            (j * block_size + fst (snd c)) (k * block_size + snd (snd c))) b"
  using stage_block_clamped[OF ax len lb, of True] halo
  unfolding staged_def dst_index_halo[abs_def] by (simp add: dst_index_halo) metis

lemma staged_halo:
  "staged \<phi> b \<Longrightarrow> \<forall>q<343. q \<notin> cell_of ` set block_coords \<longrightarrow> b ! q = 0"
  by (simp add: staged_def)

lemma staged_length: "staged \<phi> b \<Longrightarrow> length b = 343"
  by (simp add: staged_def)

section \<open>Theorems: the regression fit of a block that varies along one axis\<close>

text \<open>
  If the dense buffer depends on the innermost coordinate only, \<open>b ! p = g (p mod 6)\<close>,
  the moment sums and the coefficients have a closed form: the first two coefficients
  vanish.
\<close>

lemma upt6: "[0..<block_size] = [0, 1, 2, 3, 4, 5]"
  by (simp add: block_size_def upt_rec)

lemma fit_inner:
  assumes "\<And>kk. kk < 6 \<Longrightarrow> b ! (p + kk) = g kk"
  shows "fold (\<lambda>k (p, sum_y, fz). (let curData = b ! p
                                     in (p + 1, sum_y + curData, fz + curData * real k)))
              [0..<block_size] (p, 0, fz)
         = (p + 6, g 0 + g 1 + g 2 + g 3 + g 4 + g 5,
            fz + (g 1 + 2 * g 2 + 3 * g 3 + 4 * g 4 + 5 * g 5))"
proof -
  have v: "b ! p = g 0" "b ! (p + 1) = g 1" "b ! (p + 2) = g 2" "b ! (p + 3) = g 3"
    "b ! (p + 4) = g 4" "b ! (p + 5) = g 5"
    using assms[of 0] assms[of 1] assms[of 2] assms[of 3] assms[of 4] assms[of 5]
    by (simp_all del: One_nat_def add_2_eq_Suc' add_2_eq_Suc)
  show ?thesis
    unfolding upt6 using v
    by (simp add: Let_def add.assoc del: One_nat_def add_2_eq_Suc' add_2_eq_Suc)
qed

lemma fit_mid:
  assumes "\<And>jj kk. jj < 6 \<Longrightarrow> kk < 6 \<Longrightarrow> b ! (p + (jj * 6 + kk)) = g kk"
  shows "fold (\<lambda>j (p, sum_x, fy, fz).
                (case fold (\<lambda>k (p, sum_y, fz). (let curData = b ! p
                                     in (p + 1, sum_y + curData, fz + curData * real k)))
                           [0..<block_size] (p, 0, fz) of
                   (p, sum_y, fz) \<Rightarrow> (p, sum_x + sum_y, fy + sum_y * real j, fz)))
              [0..<block_size] (p, 0, fy, fz)
         = (p + 36, 6 * (g 0 + g 1 + g 2 + g 3 + g 4 + g 5),
            fy + 15 * (g 0 + g 1 + g 2 + g 3 + g 4 + g 5),
            fz + 6 * (g 1 + 2 * g 2 + 3 * g 3 + 4 * g 4 + 5 * g 5))"
proof -
  define F where "F = (\<lambda>p fz. fold (\<lambda>k (p, sum_y, fz). (let curData = b ! p
                                     in (p + 1, sum_y + curData, fz + curData * real k)))
                           [0..<block_size] (p, 0 :: real, fz))"
  have i: "F (p + jj * 6) fz'
         = (p + jj * 6 + 6, g 0 + g 1 + g 2 + g 3 + g 4 + g 5,
            fz' + (g 1 + 2 * g 2 + 3 * g 3 + 4 * g 4 + 5 * g 5))" if "jj < 6" for jj fz'
    unfolding F_def
    by (rule fit_inner) (use assms[OF that] in \<open>simp add: add.assoc\<close>)
  have "fold (\<lambda>j (p, sum_x, fy, fz).
                (case F p fz of
                   (p, sum_y, fz) \<Rightarrow> (p, sum_x + sum_y, fy + sum_y * real j, fz)))
              [0, 1, 2, 3, 4, 5] (p, 0, fy, fz)
         = (p + 36, 6 * (g 0 + g 1 + g 2 + g 3 + g 4 + g 5),
            fy + 15 * (g 0 + g 1 + g 2 + g 3 + g 4 + g 5),
            fz + 6 * (g 1 + 2 * g 2 + 3 * g 3 + 4 * g 4 + 5 * g 5))"
    using i[of 0] i[of 1] i[of 2] i[of 3] i[of 4] i[of 5]
    by (simp add: add.assoc del: One_nat_def add_2_eq_Suc' add_2_eq_Suc)
  then show ?thesis unfolding F_def upt6 .
qed

lemma fit_sums_zonly:
  assumes "\<And>p. p < 216 \<Longrightarrow> b ! p = g (p mod 6)"
  shows "fit_sums b
         = (90 * (g 0 + g 1 + g 2 + g 3 + g 4 + g 5),
            90 * (g 0 + g 1 + g 2 + g 3 + g 4 + g 5),
            36 * (g 1 + 2 * g 2 + 3 * g 3 + 4 * g 4 + 5 * g 5),
            36 * (g 0 + g 1 + g 2 + g 3 + g 4 + g 5))"
proof -
  define M where "M = (\<lambda>p fy fz. fold (\<lambda>j (p, sum_x, fy, fz).
                (case fold (\<lambda>k (p, sum_y, fz). (let curData = b ! p
                                     in (p + 1, sum_y + curData, fz + curData * real k)))
                           [0..<block_size] (p, 0, fz) of
                   (p, sum_y, fz) \<Rightarrow> (p, sum_x + sum_y, fy + sum_y * real j, fz)))
              [0..<block_size] (p, 0 :: real, fy, fz))"
  have m: "M (ii * 36) fy fz
           = (ii * 36 + 36, 6 * (g 0 + g 1 + g 2 + g 3 + g 4 + g 5),
            fy + 15 * (g 0 + g 1 + g 2 + g 3 + g 4 + g 5),
            fz + 6 * (g 1 + 2 * g 2 + 3 * g 3 + 4 * g 4 + 5 * g 5))" if "ii < 6" for ii fy fz
    unfolding M_def
  proof (rule fit_mid)
    fix jj kk :: nat assume "jj < 6" "kk < 6"
    with that have lt: "ii * 36 + (jj * 6 + kk) < 216" by linarith
    have e: "ii * 36 + (jj * 6 + kk) = kk + 6 * (ii * 6 + jj)" by simp
    have "(kk + 6 * (ii * 6 + jj)) mod 6 = kk" using \<open>kk < 6\<close> by (simp only: mod_mult_self2 mod_less)
    then have "(ii * 36 + (jj * 6 + kk)) mod 6 = kk" by (simp only: e)
    with assms[OF lt] show "b ! (ii * 36 + (jj * 6 + kk)) = g kk" by simp
  qed
  have "(case fold (\<lambda>i (p, fx, fy, fz, f).
                  (case M p fy fz of
                     (p, sum_x, fy, fz) \<Rightarrow> (p, fx + sum_x * real i, fy, fz, f + sum_x)))
                [0, 1, 2, 3, 4, 5] (0, 0, 0, 0, 0) of
        (p, fx, fy, fz, f) \<Rightarrow> (fx, fy, fz, f))
        = (90 * (g 0 + g 1 + g 2 + g 3 + g 4 + g 5),
            90 * (g 0 + g 1 + g 2 + g 3 + g 4 + g 5),
            36 * (g 1 + 2 * g 2 + 3 * g 3 + 4 * g 4 + 5 * g 5),
            36 * (g 0 + g 1 + g 2 + g 3 + g 4 + g 5))"
    using m[of 0] m[of 1] m[of 2] m[of 3] m[of 4] m[of 5]
    by (simp del: One_nat_def add_2_eq_Suc' add_2_eq_Suc)
  then show ?thesis unfolding fit_sums_def M_def upt6 .
qed

lemma fit_coeffs_zonly:
  assumes "\<And>p. p < 216 \<Longrightarrow> b ! p = g (p mod 6)"
  shows "fit_coeffs b
         = (0, 0,
            2 * (g 1 + 2 * g 2 + 3 * g 3 + 4 * g 4 + 5 * g 5) / 35
              - (g 0 + g 1 + g 2 + g 3 + g 4 + g 5) / 7,
            11 * (g 0 + g 1 + g 2 + g 3 + g 4 + g 5) / 21
              - (g 1 + 2 * g 2 + 3 * g 3 + 4 * g 4 + 5 * g 5) / 7)"
proof -
  define G where "G = g 0 + g 1 + g 2 + g 3 + g 4 + g 5"
  define Z where "Z = g 1 + 2 * g 2 + 3 * g 3 + 4 * g 4 + 5 * g 5"
  have "fit_sums b = (90 * G, 90 * G, 36 * Z, 36 * G)"
    unfolding G_def Z_def by (rule fit_sums_zonly[OF assms])
  then have "fit_coeffs b = (0, 0, 2 * Z / 35 - G / 7, 11 * G / 21 - Z / 7)"
    by (simp add: fit_coeffs_def block_size_def Let_def field_simps)
  then show ?thesis unfolding G_def Z_def .
qed

lemma dense_point:
  assumes "p < 216"
  shows "(p div 36, p div 6 mod 6, p mod 6) \<in> set block_coords"
    and "dst_index False (p div 36, p div 6 mod 6, p mod 6) = p"
proof -
  have "p div 36 < 6" using assms by (simp add: div_less_iff_less_mult)
  then show "(p div 36, p div 6 mod 6, p mod 6) \<in> set block_coords"
    by (simp add: set_block_coords)
  have a: "p div 6 div 6 = p div 36" by (simp add: div_mult2_eq[symmetric])
  have "p div 6 = p div 6 div 6 * 6 + p div 6 mod 6" by simp
  then have b: "p div 6 = p div 36 * 6 + p div 6 mod 6" unfolding a .
  have "p = p div 6 * 6 + p mod 6" by simp
  then have "p = (p div 36 * 6 + p div 6 mod 6) * 6 + p mod 6" using b by simp
  then have "p div 36 * 36 + (p div 6 mod 6 * 6 + p mod 6) = p" by (simp add: algebra_simps)
  then show "dst_index False (p div 36, p div 6 mod 6, p mod 6) = p"
    by (simp add: dst_index_def block_size_def add.assoc)
qed

lemma stage_dense:
  assumes ax: "axis_ok off r1 i" "axis_ok off r2 j" "axis_ok off r3 k"
      and len: "length ori = r1 * r2 * r3" and lb: "length buf = 343"
  shows "\<exists>b. stage_block off False ori r1 r2 r3 i j k buf = Some b
           \<and> (\<forall>p<216. b ! p = clamped_sample ori r1 r2 r3 (i * block_size + p div 36)
                                  (j * block_size + p div 6 mod 6) (k * block_size + p mod 6))"
proof -
  from stage_block_clamped[OF ax len lb, of False]
  obtain b where s: "stage_block off False ori r1 r2 r3 i j k buf = Some b"
    and v: "\<forall>c\<in>set block_coords.
                 b ! dst_index False c
                   = clamped_sample ori r1 r2 r3 (i * block_size + fst c)
                       (j * block_size + fst (snd c)) (k * block_size + snd (snd c))"
    by blast
  have "b ! p = clamped_sample ori r1 r2 r3 (i * block_size + p div 36)
                                  (j * block_size + p div 6 mod 6) (k * block_size + p mod 6)"
    if "p < 216" for p
  proof -
    from v dense_point(1)[OF that]
    have "b ! dst_index False (p div 36, p div 6 mod 6, p mod 6)
          = clamped_sample ori r1 r2 r3 (i * block_size + p div 36)
                                  (j * block_size + p div 6 mod 6) (k * block_size + p mod 6)"
      by fastforce
    then show ?thesis unfolding dense_point(2)[OF that] .
  qed
  with s show ?thesis by blast
qed


lemma escaped_values_none: "0 \<notin> set tys \<Longrightarrow> escaped_values vs tys = []"
  unfolding escaped_values_def by (auto simp: filter_empty_conv dest: set_zip_rightD)

section \<open>Theorems: a call on a volume of one sample\<close>





lemma sample_points_cell:
  "sample_points i
     = [(cell i i i, i - 1, i - 1, i - 1),
        (cell i i (block_size - i + 1), i - 1, i - 1, block_size - i + 1),
        (cell i (block_size - i + 1) i, i - 1, block_size - i + 1, i - 1),
        (cell i (block_size - i + 1) (block_size - i + 1), i - 1, block_size - i + 1,
         block_size - i + 1)]"
  by (simp add: sample_points_def cell_def strip_dim0_offset_def strip_dim1_offset_def Let_def
      algebra_simps)

lemma upt27: "[2..<block_size + 1] = [2, 3, 4, 5, 6]"
  by (simp add: block_size_def upt_rec)

lemma sample_errs_cell:
  assumes st: "staged \<phi> b" and le: "i \<le> 6" "j \<le> 6" "k \<le> 6" and pos: "0 < i" "0 < j" "0 < k"
  shows "sample_errs um noise mean b rp nb idx (cell i j k, x, y, z) (es, er)
         = (let curData = \<phi> (i - 1, j - 1, k - 1);
                g = (\<lambda>i j k. if 0 < i \<and> 0 < j \<and> 0 < k then \<phi> (i - 1, j - 1, k - 1) else 0);
                pred_sz = g i j (k - 1) + g i (j - 1) k + g (i - 1) j k
                          - g i (j - 1) (k - 1) - g (i - 1) j (k - 1) - g (i - 1) (j - 1) k
                          + g (i - 1) (j - 1) (k - 1)
            in (es + (if um then min (\<bar>pred_sz - curData\<bar> + noise) \<bar>mean - curData\<bar>
                      else \<bar>pred_sz - curData\<bar> + noise),
                er + \<bar>pred_reg_at rp nb idx (real x) (real y) (real z) - curData\<bar>))"
proof -
  have l: "i - 1 \<le> 6" "j - 1 \<le> 6" "k - 1 \<le> 6" using le by simp_all
  have a: "pred_sz_at b (cell i j k)
           = (if 0 < i \<and> 0 < j \<and> 0 < k - 1 then \<phi> (i - 1, j - 1, k - 1 - 1) else 0)
             + (if 0 < i \<and> 0 < j - 1 \<and> 0 < k then \<phi> (i - 1, j - 1 - 1, k - 1) else 0)
             + (if 0 < i - 1 \<and> 0 < j \<and> 0 < k then \<phi> (i - 1 - 1, j - 1, k - 1) else 0)
             - (if 0 < i \<and> 0 < j - 1 \<and> 0 < k - 1 then \<phi> (i - 1, j - 1 - 1, k - 1 - 1) else 0)
             - (if 0 < i - 1 \<and> 0 < j \<and> 0 < k - 1 then \<phi> (i - 1 - 1, j - 1, k - 1 - 1) else 0)
             - (if 0 < i - 1 \<and> 0 < j - 1 \<and> 0 < k then \<phi> (i - 1 - 1, j - 1 - 1, k - 1) else 0)
             + (if 0 < i - 1 \<and> 0 < j - 1 \<and> 0 < k - 1
                then \<phi> (i - 1 - 1, j - 1 - 1, k - 1 - 1) else 0)"
    unfolding pred_sz_at_cell[OF pos]
      staged_nth[OF st le(1) le(2) l(3)] staged_nth[OF st le(1) l(2) le(3)]
      staged_nth[OF st l(1) le(2) le(3)] staged_nth[OF st le(1) l(2) l(3)]
      staged_nth[OF st l(1) le(2) l(3)] staged_nth[OF st l(1) l(2) le(3)]
      staged_nth[OF st l(1) l(2) l(3)] ..
  have c: "b ! cell i j k = \<phi> (i - 1, j - 1, k - 1)"
    using staged_nth[OF st le] pos by simp
  show ?thesis
    unfolding sample_errs_def prod.case Let_def a c by simp
qed

lemma sampling_const:
  assumes st: "staged (\<lambda>c. v) b" and n: "\<bar>v - m\<bar> \<le> noise"
  shows "sampling True noise m b [0, 0, 0, v] 1 0 = (20 * \<bar>v - m\<bar>, 0)"
  unfolding sampling_def upt27 sample_points_cell
  using n by (simp add: sample_errs_cell[OF st] pred_reg_at_def block_size_def Let_def
      min_absorb2 abs_minus_commute)

lemma block_list_111: "block_list 1 1 1 = [(0, 0, 0)]"
  by (simp add: block_list_def num_blocks_of_def)

lemma nb_1: "num_blocks_of 1 = 1"
  by (simp add: num_blocks_of_def)

lemma axis_ok_1: "axis_ok 1 1 0"
  by (simp add: axis_ok_def block_size_def)

lemma clamped_1: "clamped_sample [v] 1 1 1 x y z = v"
  by (simp add: clamped_sample_def)

lemma fit_pass_single: "fit_pass [v] 1 1 1 = Some [0, 0, 0, v]"
proof -
  obtain b where s: "stage_block 1 False [v] 1 1 1 0 0 0 (replicate 343 0) = Some b"
    and bv: "\<forall>p<216. b ! p = clamped_sample [v] 1 1 1 (0 * block_size + p div 36)
                                  (0 * block_size + p div 6 mod 6) (0 * block_size + p mod 6)"
    using stage_dense[OF axis_ok_1 axis_ok_1 axis_ok_1, of "[v]" "replicate 343 0"] by auto
  have "\<And>p. p < 216 \<Longrightarrow> b ! p = (\<lambda>_. v) (p mod 6)" using bv by (simp add: clamped_1 del: One_nat_def)
  from fit_coeffs_zonly[OF this] have fc: "fit_coeffs b = (0, 0, 0, v)" by simp
  have r: "(replicate 4 (0::real))[0 := 0, 1 := 0, 2 := 0, 3 := v] = [0, 0, 0, v]"
    by (simp add: numeral_eq_Suc)
  show ?thesis
    by (simp add: fit_pass_def nb_1 block_list_111 fit_block_def s fc r del: One_nat_def)
qed







section \<open>Theorems: the mean of mean mode and its reserved symbol\<close>




lemma sz_mean_cell:
  "\<exists>v ty unp'. quant_sz_cell um prec mean cap rad p ii jj kk (buf, tys0, unp0)
                  = (buf[p := v], tys0 @ [ty], unp')
               \<and> (um \<and> \<bar>buf ! p - mean\<bar> \<le> prec \<longrightarrow> ty = 1 \<and> v = mean)"
  by (cases "quantize prec (cap - 2) rad (pred_sz_at buf p) (buf ! p)")
     (auto simp: quant_sz_cell_def Let_def)

lemma sz_fold_mean:
  assumes d: "distinct (map cell_of cs)" and lt: "\<forall>c\<in>set cs. cell_of c < length buf"
  shows "\<exists>buf' tys unp'.
           fold (\<lambda>c. case c of (ii, jj, kk) \<Rightarrow>
                   quant_sz_cell True prec mean cap rad (cell_of c) ii jj kk) cs (buf, tys0, unp0)
             = (buf', tys0 @ tys, unp')
           \<and> length tys = length cs \<and> length buf' = length buf
           \<and> (\<forall>q. q \<notin> cell_of ` set cs \<longrightarrow> buf' ! q = buf ! q)
           \<and> (\<forall>t<length cs. \<bar>buf ! cell_of (cs ! t) - mean\<bar> \<le> prec
                  \<longrightarrow> tys ! t = 1 \<and> buf' ! cell_of (cs ! t) = mean)"
  using d lt
proof (induction cs arbitrary: buf tys0 unp0)
  case Nil
  show ?case by simp
next
  case (Cons c cs)
  obtain ii jj kk where c: "c = (ii, jj, kk)" by (cases c) auto
  let ?p = "cell_of c"
  have p: "?p < length buf" using Cons.prems by simp
  obtain v ty unp1 where
    step: "quant_sz_cell True prec mean cap rad ?p ii jj kk (buf, tys0, unp0)
             = (buf[?p := v], tys0 @ [ty], unp1)"
    and near: "\<bar>buf ! ?p - mean\<bar> \<le> prec \<longrightarrow> ty = 1 \<and> v = mean"
    using sz_mean_cell[of True prec mean cap rad ?p ii jj kk buf tys0 unp0] by auto
  let ?buf1 = "buf[?p := v]"
  have d': "distinct (map cell_of cs)" and notin: "?p \<notin> cell_of ` set cs"
    using Cons.prems by auto
  have lt': "\<forall>c\<in>set cs. cell_of c < length ?buf1" using Cons.prems by simp
  from Cons.IH[OF d' lt', of "tys0 @ [ty]" unp1]
  obtain buf' tys unp' where
    f: "fold (\<lambda>c. case c of (ii, jj, kk) \<Rightarrow>
                quant_sz_cell True prec mean cap rad (cell_of c) ii jj kk) cs
             (?buf1, tys0 @ [ty], unp1) = (buf', (tys0 @ [ty]) @ tys, unp')"
    and l: "length tys = length cs" "length buf' = length ?buf1"
    and fr: "\<forall>q. q \<notin> cell_of ` set cs \<longrightarrow> buf' ! q = ?buf1 ! q"
    and m: "\<forall>t<length cs. \<bar>?buf1 ! cell_of (cs ! t) - mean\<bar> \<le> prec
                  \<longrightarrow> tys ! t = 1 \<and> buf' ! cell_of (cs ! t) = mean"
    by blast
  have 1: "fold (\<lambda>c. case c of (ii, jj, kk) \<Rightarrow>
                quant_sz_cell True prec mean cap rad (cell_of c) ii jj kk) (c # cs)
             (buf, tys0, unp0) = (buf', tys0 @ (ty # tys), unp')"
    using f step by (simp add: c)
  have 2: "length (ty # tys) = length (c # cs)" "length buf' = length buf" using l by simp_all
  have 3: "\<forall>q. q \<notin> cell_of ` set (c # cs) \<longrightarrow> buf' ! q = buf ! q"
    using fr by simp
  have 4: "(ty # tys) ! t = 1 \<and> buf' ! cell_of ((c # cs) ! t) = mean"
    if t: "t < length (c # cs)" and n: "\<bar>buf ! cell_of ((c # cs) ! t) - mean\<bar> \<le> prec" for t
  proof (cases t)
    case 0
    with n near have "ty = 1" "v = mean" by simp_all
    moreover have "buf' ! ?p = ?buf1 ! ?p" using fr notin by blast
    ultimately show ?thesis using p 0 by simp
  next
    case (Suc t')
    then have t': "t' < length cs" using t by simp
    then have "cell_of (cs ! t') \<in> cell_of ` set cs" by simp
    with notin have "cell_of (cs ! t') \<noteq> ?p" by metis
    then have "?buf1 ! cell_of (cs ! t') = buf ! cell_of (cs ! t')" by simp
    with m t' n Suc show ?thesis by simp
  qed
  from 1 2 3 4 show ?case by blast
qed





section \<open>Theorems: the container serializer\<close>

lemma run_append: "run (a @ b) s = run b (run a s)"
  by (simp add: run_def)

lemma run_pos: "result_pos (run stmts s) = result_pos s + sum_list (map advance_of stmts)"
  unfolding run_def
proof (induction stmts arbitrary: s)
  case Nil show ?case by simp
next
  case (Cons a r) show ?case by (cases a) (simp_all add: Cons)
qed

lemma run_writes: "ser_writes (run stmts s) = ser_writes s @ writes_from (result_pos s) stmts"
  unfolding run_def
proof (induction stmts arbitrary: s)
  case Nil show ?case by simp
next
  case (Cons a r) show ?case by (cases a) (simp_all add: Cons)
qed

lemma writes_from_append:
  "writes_from p (a @ b) = writes_from p a @ writes_from (p + sum_list (map advance_of a)) b"
proof (induction a arbitrary: p)
  case Nil show ?case by simp
next
  case (Cons x r) show ?case by (cases x) (simp_all add: Cons add.assoc)
qed

lemma header_writes:
  "writes_from 0 (ser_header ext c q r1 r2 r3 realPrecision)
   = header_fields ext c q r1 r2 r3 realPrecision"
  by (simp add: ser_header_def header_fields_def Let_def add.assoc)

lemma header_advance:
  "sum_list (map advance_of (ser_header ext c q r1 r2 r3 realPrecision)) = header_size ext c q"
  by (simp add: ser_header_def header_size_def Let_def)

lemma slot_writes:
  "writes_from p (ser_coeff_slot ext q realPrecision e) = slot_fields ext q realPrecision p e"
  by (simp add: ser_coeff_slot_def slot_fields_def Let_def add.assoc)

lemma slot_advance:
  "sum_list (map advance_of (ser_coeff_slot ext q realPrecision e)) = slot_size ext q e"
  by (simp add: ser_coeff_slot_def slot_size_def Let_def)

lemma upt_4: "[0..<4] = [0, 1, 2, 3]"
  by (simp add: upt_rec)

lemma coeffs_writes:
  "writes_from p (ser_coeffs ext q realPrecision) = coeffs_fields ext q realPrecision p"
  by (simp add: ser_coeffs_def coeffs_fields_def upt_4 writes_from_append slot_writes
      slot_advance add.assoc del: One_nat_def)

lemma coeffs_advance:
  "sum_list (map advance_of (ser_coeffs ext q realPrecision)) = coeffs_size ext q"
  by (simp add: ser_coeffs_def coeffs_size_def upt_4 slot_advance del: One_nat_def)

lemma tail_writes:
  "writes_from p (ser_tail ext c q r1 r2 r3) = tail_fields ext c q r1 r2 r3 p"
  by (simp add: ser_tail_def tail_fields_def Let_def add.assoc)

lemma tail_advance:
  "sum_list (map advance_of (ser_tail ext c q r1 r2 r3)) = tail_size ext c q r1 r2 r3"
  by (simp add: ser_tail_def tail_size_def Let_def)

lemma sz_serialize_writes:
  "ser_writes (sz_serialize ext c q r1 r2 r3 realPrecision)
   = header_fields ext c q r1 r2 r3 realPrecision
     @ coeffs_fields ext q realPrecision (header_size ext c q)
     @ tail_fields ext c q r1 r2 r3 (header_size ext c q + coeffs_size ext q)"
  by (simp add: sz_serialize_def run_writes writes_from_append header_writes header_advance
      coeffs_writes coeffs_advance tail_writes)

lemma totalEncodeSize_eq:
  "totalEncodeSize ext c q r1 r2 r3 realPrecision
   = header_size ext c q + coeffs_size ext q + tail_size ext c q r1 r2 r3"
  by (simp add: totalEncodeSize_def sz_serialize_def run_pos header_advance coeffs_advance
      tail_advance)

lemma encode_size_vs_alloc:
  "totalEncodeSize ext c q r1 r2 r3 realPrecision
     + 8 * (num_blocks_of r1 * num_blocks_of r2 * num_blocks_of r3) + 4 * (r1 * r2 * r3)
   = result_alloc_size ext c q r1 r2 r3 + 37 + length (indicator_bytes ext q)
     + coeffs_size ext q + length (compressed_bw_unpred_count ext q)
     + length (compressed_type_array_block ext c q r1 r2 r3)
     + length (type_array_buffer ext c q r1 r2 r3)"
  by (simp add: totalEncodeSize_eq result_alloc_size_def header_size_def tail_size_def Let_def)

text \<open>
  C3 fails on the volume of one sample, whatever the library functions return: the
  \<^verbatim>\<open>calloc\<close> of lines 982--988 counts 16 bytes for the fixed fields and
  \<open>8 * num_blocks + 4 * num_elements\<close> bytes for everything of variable size except the
  tree and the unpredictable values, and the fixed fields alone take 53 bytes
  (lemma \<open>encode_size_vs_alloc\<close>). With one block and one element,
  \<^verbatim>\<open>totalEncodeSize\<close> exceeds the allocation by at least 25 bytes.
\<close>

theorem container_overflows_single_sample:
  "result_alloc_size ext c q 1 1 1 < totalEncodeSize ext c q 1 1 1 realPrecision"
  by (simp add: totalEncodeSize_eq result_alloc_size_def header_size_def tail_size_def
      num_blocks_of_def Let_def)

section \<open>Theorems: the coefficient sections of the container\<close>

lemma select_pass_single_mean:
  assumes n: "0 \<le> prec"
  shows "\<exists>b. select_pass True prec m [m] 1 1 1 [0, 0, 0, m] = Some (b, [True])
             \<and> staged (\<lambda>c. m) b"
proof -
  obtain b where s: "stage_block 1 True [m] 1 1 1 0 0 0 (replicate 343 0) = Some b"
    and st: "staged (\<lambda>c. clamped_sample [m] 1 1 1 (0 * block_size + fst c)
                            (0 * block_size + fst (snd c)) (0 * block_size + snd (snd c))) b"
    using stage_halo_staged[OF axis_ok_1 axis_ok_1 axis_ok_1, of "[m]" "replicate 343 0"]
    by auto
  have st': "staged (\<lambda>c. m) b" using st by (simp add: clamped_1 del: One_nat_def)
  have n': "\<bar>m - m\<bar> \<le> prec * 1.22" using n by simp
  have si: "sampling True (prec * 1.22) m b [0, 0, 0, m] 1 0 = (20 * \<bar>m - m\<bar>, 0)"
    by (rule sampling_const[OF st' n'])
  have ind: "select_indicator True (prec * 1.22) m b [0, 0, 0, m] 1 0 = True"
    unfolding select_indicator_def si by simp
  have "select_pass True prec m [m] 1 1 1 [0, 0, 0, m] = Some (b, [True])"
    unfolding select_pass_def Let_def nb_1 nat_mult_1 block_list_111 fold_opt.simps
      select_block_def prod.case if_True s option.case ind
    by simp
  with st' show ?thesis by blast
qed

lemma compact_single_lorenzo: "compact_params 1 [True] rp = (rp, 0)"
  by (simp add: compact_params_def compact_step_def)

lemma coeff_quantize_none: "coeff_quantize prec nb 0 rp = coeff_init rp"
  by (simp add: coeff_quantize_def)

lemma quantize_pass_single_lorenzo:
  assumes st: "staged (\<lambda>c. m) b" and prec: "0 \<le> prec" and cap: "cap \<le> 2 * rad"
  shows "\<exists>qs. quantize_pass True prec m cap rad [m] 1 1 1 rp [True] b = Some qs
              \<and> qs_type qs = replicate 216 1 \<and> qs_unpredictable_data qs = []
              \<and> qs_blockwise_unpred_count qs = [0]"
proof -
  obtain b' where s: "stage_block 1 True [m] 1 1 1 0 0 0 b = Some b'"
    and st0: "staged (\<lambda>c. clamped_sample [m] 1 1 1 (0 * block_size + fst c)
                            (0 * block_size + fst (snd c)) (0 * block_size + snd (snd c))) b'"
    using stage_halo_staged[OF axis_ok_1 axis_ok_1 axis_ok_1 _ staged_length[OF st]
        staged_halo[OF st], of "[m]"]
    by auto
  have st': "staged (\<lambda>c. m) b'" using st0 by (simp add: clamped_1 del: One_nat_def)
  have len: "length b' = 343" by (rule staged_length[OF st'])
  have lt: "\<forall>c\<in>set block_coords. cell_of c < length b'" using cell_of_lt len by simp
  let ?F = "fold (\<lambda>c. case c of (ii, jj, kk) \<Rightarrow>
                quant_sz_cell True prec m cap rad (cell_of c) ii jj kk)
             block_coords (b', [], [])"
  from sz_fold[OF cap distinct_block_cells lt, of True prec m "[]" "[]"]
  obtain buf1 tys where f1: "?F = (buf1, tys, escaped_values (map (\<lambda>c. b' ! cell_of c) block_coords) tys)"
    and l1: "length tys = 216"
    by (auto simp: length_block_coords)
  from sz_fold_mean[OF distinct_block_cells lt, of prec m cap rad "[]" "[]"]
  obtain buf2 tys2 unp2 where f2: "?F = (buf2, tys2, unp2)"
    and m2: "\<forall>t<length block_coords. \<bar>b' ! cell_of (block_coords ! t) - m\<bar> \<le> prec
                  \<longrightarrow> tys2 ! t = 1 \<and> buf2 ! cell_of (block_coords ! t) = m"
    by auto
  from f1 f2 have e: "tys2 = tys" by simp
  have one: "tys ! t = 1" if "t < 216" for t
  proof -
    have "block_coords ! t \<in> set block_coords" using that by (simp add: length_block_coords)
    then have "b' ! cell_of (block_coords ! t) = m" using st' unfolding staged_def by blast
    with m2 that prec show ?thesis unfolding e by (simp add: length_block_coords)
  qed
  have tys: "tys = replicate 216 1"
    using l1 one by (simp add: list_eq_iff_nth_eq)
  have qb: "quantize_block True prec m cap rad rp 1 True 0 b' = (buf1, replicate 216 1, [], 0)"
    using f1 unfolding tys
    by (simp add: quantize_block_def walk_block_fold escaped_values_none del: One_nat_def)
  show ?thesis
    by (simp add: quantize_pass_def nb_1 block_list_111 quantize_step_def s qb
        del: One_nat_def)
qed

lemma mean_mode_run_lorenzo:
  "sz_quantize_volume \<lparr> cfg_intvCapacity = 65536, cfg_intvRadius = 32768,
                        cfg_use_mean = True, cfg_dense_pos = 5,
                        cfg_quantization_intervals = 65536 \<rparr> [5] 1 1 1 1
   = Some \<lparr> q_mean = 5, q_indicator = [True], q_reg_count = 0,
            q_reg_params = [0, 0, 0, 5],
            q_coeff_type = [[], [], [], []],
            q_coeff_unpred_data = [[], [], [], []],
            q_type = replicate 216 1, q_unpredictable_data = [],
            q_blockwise_unpred_count = [0] \<rparr>"
proof -
  have m: "compute_mean True 5 1 [5] = 5"
    by (simp add: compute_mean_def mean_step_def)
  obtain b where sp: "select_pass True 1 5 [5] 1 1 1 [0, 0, 0, 5] = Some (b, [True])"
    and st: "staged (\<lambda>c. 5) b"
    using select_pass_single_mean[of 1 5] by auto
  obtain qs where qp: "quantize_pass True 1 5 65536 32768 [5] 1 1 1 [0, 0, 0, 5] [True] b
                         = Some qs"
    and ty: "qs_type qs = replicate 216 1" "qs_unpredictable_data qs = []"
      "qs_blockwise_unpred_count qs = [0]"
    using quantize_pass_single_lorenzo[OF st, of 1 65536 32768 "[0, 0, 0, 5]"] by auto
  show ?thesis
    by (simp add: sz_quantize_volume_def nb_1 fit_pass_single m sp compact_single_lorenzo
        coeff_quantize_none coeff_init_def qp ty Let_def del: One_nat_def)
qed

lemma length_header_fields: "length (header_fields ext c q r1 r2 r3 realPrecision) = 11"
  by (simp add: header_fields_def Let_def)

lemma length_tail_fields: "length (tail_fields ext c q r1 r2 r3 p) = 7"
  by (simp add: tail_fields_def Let_def)

text \<open>
  Counterexample to C5 as stated. Mean mode, \<open>dense_pos = 5\<close>, precision 1, the volume
  \<open>[5]\<close>: the mean is 5, both errors of the selector are 0, the block selects the
  Lorenzo predictor and \<^verbatim>\<open>reg_count = 0\<close>. Whatever the library functions return, the
  store after the indicator bitmap (the eleventh store) is the total count of
  unpredictable values, at the byte after the bitmap: no coefficient section is written.
\<close>

theorem coefficient_sections_absent_counterexample:
  "\<exists>q. sz_quantize_volume \<lparr> cfg_intvCapacity = 65536, cfg_intvRadius = 32768,
                             cfg_use_mean = True, cfg_dense_pos = 5,
                             cfg_quantization_intervals = 65536 \<rparr> [5] 1 1 1 1 = Some q
       \<and> q_reg_count q = 0
       \<and> (\<forall>ext. \<exists>p.
             take 2 (drop 10 (ser_writes
               (sz_serialize ext \<lparr> cfg_intvCapacity = 65536, cfg_intvRadius = 32768,
                                    cfg_use_mean = True, cfg_dense_pos = 5,
                                    cfg_quantization_intervals = 65536 \<rparr> q 1 1 1 1)))
             = [(p, indicator_bytes ext q),
                (p + length (indicator_bytes ext q), size_t_bytes ext (total_unpred q))])"
  unfolding mean_mode_run_lorenzo sz_serialize_writes
  by (simp add: header_fields_def coeffs_fields_def coeffs_size_def tail_fields_def
      header_size_def Let_def)

text \<open>
  C5, amended. For every input, the stores of the serializer are the ten stores of the
  header, the indicator bitmap, then, if and only if \<^verbatim>\<open>reg_count > 0\<close>, the sections of
  the four coefficient slots in the order 0, 1, 2, 3, each with the fields of
  \<open>slot_fields\<close> (precision, radius, tree byte size, node count, tree, encoded symbols
  and their length, unpredictable count, unpredictable coefficients), then the total
  count of unpredictable values and six more stores. With \<^verbatim>\<open>reg_count = 0\<close> the total
  count follows the bitmap directly.
\<close>

theorem coefficient_sections_only_with_regression:
  "\<exists>pre post p.
     ser_writes (sz_serialize ext c q r1 r2 r3 realPrecision)
       = pre @ [(p, indicator_bytes ext q)]
         @ (if 0 < q_reg_count q
            then slot_fields ext q realPrecision (p + length (indicator_bytes ext q)) 0
                 @ slot_fields ext q realPrecision
                     (p + length (indicator_bytes ext q) + slot_size ext q 0) 1
                 @ slot_fields ext q realPrecision
                     (p + length (indicator_bytes ext q) + slot_size ext q 0 + slot_size ext q 1) 2
                 @ slot_fields ext q realPrecision
                     (p + length (indicator_bytes ext q) + slot_size ext q 0 + slot_size ext q 1
                      + slot_size ext q 2) 3
            else [])
         @ [(p + length (indicator_bytes ext q) + coeffs_size ext q,
             size_t_bytes ext (total_unpred q))]
         @ post
     \<and> length pre = 10 \<and> length post = 6"
proof -
  let ?a = "meta_data_offset ext + SZ_SIZE_TYPE ext"
  let ?t = "length (main_treeBytes ext c q)"
  let ?p = "?a + 29 + ?t"
  have h: "header_fields ext c q r1 r2 r3 realPrecision
           = butlast (header_fields ext c q r1 r2 r3 realPrecision) @ [(?p, indicator_bytes ext q)]"
    by (simp add: header_fields_def Let_def)
  have hs: "header_size ext c q = ?p + length (indicator_bytes ext q)"
    by (simp add: header_size_def)
  have t: "tail_fields ext c q r1 r2 r3 (header_size ext c q + coeffs_size ext q)
           = [(?p + length (indicator_bytes ext q) + coeffs_size ext q,
               size_t_bytes ext (total_unpred q))]
             @ tl (tail_fields ext c q r1 r2 r3 (header_size ext c q + coeffs_size ext q))"
    by (simp add: tail_fields_def Let_def hs)
  have c: "coeffs_fields ext q realPrecision (header_size ext c q)
           = (if 0 < q_reg_count q
            then slot_fields ext q realPrecision (?p + length (indicator_bytes ext q)) 0
                 @ slot_fields ext q realPrecision
                     (?p + length (indicator_bytes ext q) + slot_size ext q 0) 1
                 @ slot_fields ext q realPrecision
                     (?p + length (indicator_bytes ext q) + slot_size ext q 0 + slot_size ext q 1) 2
                 @ slot_fields ext q realPrecision
                     (?p + length (indicator_bytes ext q) + slot_size ext q 0 + slot_size ext q 1
                      + slot_size ext q 2) 3
            else [])"
    by (simp add: coeffs_fields_def hs)
  have l1: "length (butlast (header_fields ext c q r1 r2 r3 realPrecision)) = 10"
    by (simp add: length_header_fields)
  have l2: "length (tl (tail_fields ext c q r1 r2 r3 (header_size ext c q + coeffs_size ext q))) = 6"
    by (simp add: length_tail_fields)
  have "ser_writes (sz_serialize ext c q r1 r2 r3 realPrecision)
        = (butlast (header_fields ext c q r1 r2 r3 realPrecision) @ [(?p, indicator_bytes ext q)])
          @ coeffs_fields ext q realPrecision (header_size ext c q)
          @ ([(?p + length (indicator_bytes ext q) + coeffs_size ext q,
               size_t_bytes ext (total_unpred q))]
             @ tl (tail_fields ext c q r1 r2 r3 (header_size ext c q + coeffs_size ext q)))"
    unfolding sz_serialize_writes using h t by simp
  then show ?thesis unfolding c using l1 l2 by (metis append.assoc)
qed

section \<open>Theorems: the length fields of the container\<close>







end
